theory Spec2Isabelle
  imports Main "HOL-Library.Word" "HOL-Library.Multiset"
begin

section \<open>Host model: addresses, integers, authorization, failures\<close>

text \<open>
  The two Soroban contracts of the repository, \<open>CarbonToken\<close> (the token ledger) and
  \<open>CarbonCertifier\<close> (the certificate registry), are embedded as functions over explicit
  storage records. An \<open>Address\<close> is opaque in the contracts; here it is a string.
  \<open>u32\<close> and \<open>u128\<close> are words read by \<open>unat\<close>; \<open>i128\<close> is a 128-bit word read by
  \<open>sint\<close>. The cast \<open>co2e_tons as i128\<close> keeps the bits, so it is the identity on the
  128-bit word.

  Arithmetic is checked, as in the test builds and in the release profile of a Soroban
  workspace: \<open>+\<close> and \<open>-\<close> abort the call on overflow. An abort (also the one of
  \<open>require_auth\<close>) is the value \<open>Panic\<close>; an error the contract returns is \<open>Err\<close>.
  Every entry point returns its result together with the storage as the code has written
  it up to that point, so that "a failure happens before the first write" is a property
  to be proved and not one built into the model. Events carry no stored state and are
  left out.
\<close>

type_synonym address = string
type_synonym u32 = "32 word"
type_synonym u128 = "128 word"
type_synonym i128 = "128 word"

datatype panic = AuthRequired | ArithOverflow | HostError

datatype 'e failure = Err 'e | Panic panic

text \<open>The addresses that have authorized the current invocation: \<open>a.require_auth()\<close>
  passes exactly for the members of this set and aborts the call for any other address.\<close>

type_synonym auth = "address set"

definition add_u32 :: "u32 \<Rightarrow> u32 \<Rightarrow> u32 option" where
  "add_u32 a b = (if unat a + unat b < 2 ^ 32 then Some (a + b) else None)"

definition add_u128 :: "u128 \<Rightarrow> u128 \<Rightarrow> u128 option" where
  "add_u128 a b = (if unat a + unat b < 2 ^ 128 then Some (a + b) else None)"

definition add_i128 :: "i128 \<Rightarrow> i128 \<Rightarrow> i128 option" where
  "add_i128 a b =
     (if - (2 ^ 127) \<le> sint a + sint b \<and> sint a + sint b < 2 ^ 127 then Some (a + b) else None)"

definition sub_i128 :: "i128 \<Rightarrow> i128 \<Rightarrow> i128 option" where
  "sub_i128 a b =
     (if - (2 ^ 127) \<le> sint a - sint b \<and> sint a - sint b < 2 ^ 127 then Some (a - b) else None)"

section \<open>The token ledger (CarbonToken)\<close>

datatype token_error =
  NotInitialized | Unauthorized | InsufficientBalance | InvalidAmount | InsufficientAllowance

text \<open>The storage behind \<open>DataKey::Admin\<close>, \<open>DataKey::Balance(Address)\<close> and
  \<open>DataKey::Allowance(Address, Address)\<close>.\<close>

record token_storage =
  token_admin :: "address option"
  balances :: "address \<rightharpoonup> i128"
  allowances :: "address \<times> address \<rightharpoonup> i128"

type_synonym 'a token_result = "(token_error failure + 'a) \<times> token_storage"

definition get_balance :: "token_storage \<Rightarrow> address \<Rightarrow> i128" where
  "get_balance env a = (case balances env a of None \<Rightarrow> 0 | Some b \<Rightarrow> b)"

definition set_balance :: "token_storage \<Rightarrow> address \<Rightarrow> i128 \<Rightarrow> token_storage" where
  "set_balance env a b = env\<lparr>balances := (balances env)(a \<mapsto> b)\<rparr>"

definition require_admin :: "auth \<Rightarrow> token_storage \<Rightarrow> token_error failure + unit" where
  "require_admin au env =
     (case token_admin env of
        None \<Rightarrow> Inl (Err NotInitialized)
      | Some admin \<Rightarrow> if admin \<in> au then Inr () else Inl (Panic AuthRequired))"

definition token_initialize :: "address \<Rightarrow> token_storage \<Rightarrow> unit token_result" where
  "token_initialize admin env =
     (if token_admin env \<noteq> None then (Inl (Err NotInitialized), env)
      else (Inr (), env\<lparr>token_admin := Some admin\<rparr>))"

definition mint :: "auth \<Rightarrow> address \<Rightarrow> i128 \<Rightarrow> token_storage \<Rightarrow> unit token_result" where
  "mint au to amount env =
     (case require_admin au env of
        Inl f \<Rightarrow> (Inl f, env)
      | Inr _ \<Rightarrow>
          if sint amount \<le> 0 then (Inl (Err InvalidAmount), env)
          else
            (let current_balance = get_balance env to in
             case add_i128 current_balance amount of
               None \<Rightarrow> (Inl (Panic ArithOverflow), env)
             | Some new_balance \<Rightarrow> (Inr (), set_balance env to new_balance)))"

definition transfer ::
  "auth \<Rightarrow> address \<Rightarrow> address \<Rightarrow> i128 \<Rightarrow> token_storage \<Rightarrow> unit token_result" where
  "transfer au from to amount env =
     (if from \<notin> au then (Inl (Panic AuthRequired), env)
      else if sint amount \<le> 0 then (Inl (Err InvalidAmount), env)
      else
        (let from_balance = get_balance env from in
         if sint from_balance < sint amount then (Inl (Err InsufficientBalance), env)
         else
           (case sub_i128 from_balance amount of
              None \<Rightarrow> (Inl (Panic ArithOverflow), env)
            | Some debited \<Rightarrow>
                (let env1 = set_balance env from debited;
                     to_balance = get_balance env1 to
                 in case add_i128 to_balance amount of
                      None \<Rightarrow> (Inl (Panic ArithOverflow), env1)
                    | Some credited \<Rightarrow> (Inr (), set_balance env1 to credited)))))"

definition balance :: "token_storage \<Rightarrow> address \<Rightarrow> i128" where
  "balance env a = get_balance env a"

definition approve ::
  "auth \<Rightarrow> address \<Rightarrow> address \<Rightarrow> i128 \<Rightarrow> token_storage \<Rightarrow> unit token_result" where
  "approve au from spender amount env =
     (if from \<notin> au then (Inl (Panic AuthRequired), env)
      else if sint amount < 0 then (Inl (Err InvalidAmount), env)
      else (Inr (), env\<lparr>allowances := (allowances env)((from, spender) \<mapsto> amount)\<rparr>))"

definition allowance :: "token_storage \<Rightarrow> address \<Rightarrow> address \<Rightarrow> i128" where
  "allowance env from spender =
     (case allowances env (from, spender) of None \<Rightarrow> 0 | Some a \<Rightarrow> a)"

definition transfer_from ::
  "auth \<Rightarrow> address \<Rightarrow> address \<Rightarrow> address \<Rightarrow> i128 \<Rightarrow> token_storage \<Rightarrow> unit token_result" where
  "transfer_from au spender from to amount env =
     (if spender \<notin> au then (Inl (Panic AuthRequired), env)
      else if sint amount \<le> 0 then (Inl (Err InvalidAmount), env)
      else
        (let from_balance = get_balance env from in
         if sint from_balance < sint amount then (Inl (Err InsufficientBalance), env)
         else
           (let current_allowance = allowance env from spender in
            if sint current_allowance < sint amount then (Inl (Err InsufficientAllowance), env)
            else
              (case sub_i128 from_balance amount of
                 None \<Rightarrow> (Inl (Panic ArithOverflow), env)
               | Some debited \<Rightarrow>
                   (let env1 = set_balance env from debited;
                        to_balance = get_balance env1 to
                    in case add_i128 to_balance amount of
                         None \<Rightarrow> (Inl (Panic ArithOverflow), env1)
                       | Some credited \<Rightarrow>
                           (let env2 = set_balance env1 to credited in
                            case sub_i128 current_allowance amount of
                              None \<Rightarrow> (Inl (Panic ArithOverflow), env2)
                            | Some new_allowance \<Rightarrow>
                                (Inr (),
                                 env2\<lparr>allowances :=
                                   (allowances env2)((from, spender) \<mapsto> new_allowance)\<rparr>)))))))"

section \<open>The certificate registry (CarbonCertifier)\<close>

datatype contract_error = AlreadyExists | NotFound | InvalidInput | NotOwner | NotAuthorized

record verification_record =
  verifier_address :: address
  farmer_address :: address
  hectares_not_burned :: u32
  co2e_tons :: u128
  metadata_hash :: "256 word"

datatype sort_by = Co2eTons | Hectares | CertificateId

text \<open>One field per variant of \<open>DataKey\<close>: \<open>Certificates(u32)\<close>, \<open>CertificateOwner(u32)\<close>,
  \<open>FarmerCertList(Address)\<close>, \<open>VerifierCertList(Address)\<close>, \<open>TotalCertificates\<close>,
  \<open>TotalCO2e\<close>, \<open>Admin\<close> and \<open>TokenContractId\<close>. A key that was never set is \<open>None\<close>.\<close>

record registry_storage =
  certificates :: "u32 \<rightharpoonup> verification_record"
  certificate_owner :: "u32 \<rightharpoonup> address"
  farmer_cert_list :: "address \<rightharpoonup> u32 list"
  verifier_cert_list :: "address \<rightharpoonup> u32 list"
  total_certificates :: "u32 option"
  total_co2e :: "u128 option"
  registry_admin :: "address option"
  token_contract_id :: "address option"

type_synonym 'a registry_result = "(contract_error failure + 'a) \<times> registry_storage"

subsection \<open>Counters\<close>

text \<open>The additions are checked. The two subtractions stand behind the comparison that
  guards them in the code, so they cannot underflow and are plain word subtractions.\<close>

definition get_total_certificates :: "registry_storage \<Rightarrow> u32" where
  "get_total_certificates env = (case total_certificates env of None \<Rightarrow> 0 | Some c \<Rightarrow> c)"

definition get_total_co2e :: "registry_storage \<Rightarrow> u128" where
  "get_total_co2e env = (case total_co2e env of None \<Rightarrow> 0 | Some c \<Rightarrow> c)"

definition increment_certificate_count :: "registry_storage \<Rightarrow> registry_storage option" where
  "increment_certificate_count env =
     (let current_count = (case total_certificates env of None \<Rightarrow> 0 | Some c \<Rightarrow> c)
      in case add_u32 current_count 1 of
           None \<Rightarrow> None
         | Some c \<Rightarrow> Some (env\<lparr>total_certificates := Some c\<rparr>))"

definition add_co2e_to_total :: "registry_storage \<Rightarrow> u128 \<Rightarrow> registry_storage option" where
  "add_co2e_to_total env tons =
     (let current_total = (case total_co2e env of None \<Rightarrow> 0 | Some c \<Rightarrow> c)
      in case add_u128 current_total tons of
           None \<Rightarrow> None
         | Some c \<Rightarrow> Some (env\<lparr>total_co2e := Some c\<rparr>))"

definition decrement_certificate_count :: "registry_storage \<Rightarrow> registry_storage" where
  "decrement_certificate_count env =
     (let current_count = (case total_certificates env of None \<Rightarrow> 0 | Some c \<Rightarrow> c)
      in if current_count > 0 then env\<lparr>total_certificates := Some (current_count - 1)\<rparr> else env)"

definition subtract_co2e_from_total :: "registry_storage \<Rightarrow> u128 \<Rightarrow> registry_storage" where
  "subtract_co2e_from_total env tons =
     (let current_total = (case total_co2e env of None \<Rightarrow> 0 | Some c \<Rightarrow> c)
      in if current_total \<ge> tons then env\<lparr>total_co2e := Some (current_total - tons)\<rparr> else env)"

subsection \<open>Index lists\<close>

text \<open>The list stored for an actor, empty when the key is unset (\<open>unwrap_or(Vec::new)\<close>).\<close>

definition index_list :: "registry_storage \<Rightarrow> address \<Rightarrow> bool \<Rightarrow> u32 list" where
  "index_list env actor is_farmer =
     (case (if is_farmer then farmer_cert_list env actor else verifier_cert_list env actor) of
        None \<Rightarrow> [] | Some l \<Rightarrow> l)"

text \<open>Storing a list under the actor's key, farmer or verifier.\<close>

definition set_index_list ::
  "registry_storage \<Rightarrow> address \<Rightarrow> bool \<Rightarrow> u32 list \<Rightarrow> registry_storage" where
  "set_index_list env actor is_farmer l =
     (if is_farmer then env\<lparr>farmer_cert_list := (farmer_cert_list env)(actor \<mapsto> l)\<rparr>
      else env\<lparr>verifier_cert_list := (verifier_cert_list env)(actor \<mapsto> l)\<rparr>)"

definition add_to_index ::
  "registry_storage \<Rightarrow> address \<Rightarrow> u32 \<Rightarrow> bool \<Rightarrow> registry_storage" where
  "add_to_index env actor_address certificate_id is_farmer =
     (let cert_list = index_list env actor_address is_farmer
      in set_index_list env actor_address is_farmer (cert_list @ [certificate_id]))"

text \<open>The scan of \<open>remove_from_index\<close>: the first position holding the id.\<close>

fun find_index :: "u32 list \<Rightarrow> u32 \<Rightarrow> nat option" where
  "find_index [] certificate_id = None"
| "find_index (x # xs) certificate_id =
     (if x = certificate_id then Some 0 else map_option Suc (find_index xs certificate_id))"

text \<open>The swap with the last element and the \<open>pop_back\<close>.\<close>

definition swap_and_pop :: "u32 list \<Rightarrow> nat \<Rightarrow> u32 list" where
  "swap_and_pop cert_list index =
     (let list_len = length cert_list;
          last_index = list_len - 1
      in butlast (if index < last_index then cert_list[index := cert_list ! last_index]
                  else cert_list))"

definition remove_from_index ::
  "registry_storage \<Rightarrow> address \<Rightarrow> u32 \<Rightarrow> bool \<Rightarrow> registry_storage" where
  "remove_from_index env actor_address certificate_id is_farmer =
     (case (if is_farmer then farmer_cert_list env actor_address
            else verifier_cert_list env actor_address) of
        None \<Rightarrow> env
      | Some cert_list \<Rightarrow>
          (case find_index cert_list certificate_id of
             None \<Rightarrow> env
           | Some index \<Rightarrow>
               set_index_list env actor_address is_farmer (swap_and_pop cert_list index)))"

subsection \<open>Pagination, sorting, filtering\<close>

text \<open>A Soroban \<open>Vec\<close> has a \<open>u32\<close> length. \<open>offset + limit\<close> is a \<open>u32\<close> addition and is
  computed before \<open>.min(total)\<close>.\<close>

definition paginate_cert_list :: "u32 list \<Rightarrow> u32 \<Rightarrow> u32 \<Rightarrow> panic + (u32 list \<times> u32)" where
  "paginate_cert_list all_certs offset limit =
     (let total = (of_nat (length all_certs) :: u32)
      in if offset \<ge> total then Inr ([], total)
         else
           (case add_u32 offset limit of
              None \<Rightarrow> Inl ArithOverflow
            | Some s \<Rightarrow>
                (let end_index = min s total
                 in Inr (map (\<lambda>i. all_certs ! i) [unat offset ..< unat end_index], total))))"

definition sort_value :: "sort_by \<Rightarrow> u32 \<Rightarrow> verification_record \<Rightarrow> u128" where
  "sort_value sort_by cid record =
     (case sort_by of
        Co2eTons \<Rightarrow> co2e_tons record
      | Hectares \<Rightarrow> ucast (hectares_not_burned record)
      | CertificateId \<Rightarrow> ucast cid)"

text \<open>The first loop of \<open>sort_certificates\<close>: one pair per id whose record exists.\<close>

fun key_pairs :: "registry_storage \<Rightarrow> u32 list \<Rightarrow> sort_by \<Rightarrow> (u32 \<times> u128) list" where
  "key_pairs env [] sort_by = []"
| "key_pairs env (cid # ids) sort_by =
     (case certificates env cid of
        Some record \<Rightarrow> (cid, sort_value sort_by cid record) # key_pairs env ids sort_by
      | None \<Rightarrow> key_pairs env ids sort_by)"

definition should_swap :: "bool \<Rightarrow> (u32 \<times> u128) \<Rightarrow> (u32 \<times> u128) \<Rightarrow> bool" where
  "should_swap is_descending a b = (if is_descending then snd a < snd b else snd a > snd b)"

text \<open>The body of the inner loop at index \<open>j\<close>.\<close>

definition bubble_step ::
  "bool \<Rightarrow> (u32 \<times> u128) list \<Rightarrow> nat \<Rightarrow> (u32 \<times> u128) list" where
  "bubble_step is_descending pairs j =
     (if should_swap is_descending (pairs ! j) (pairs ! (j + 1))
      then (let temp = pairs ! j in (pairs[j := pairs ! (j + 1)])[j + 1 := temp])
      else pairs)"

text \<open>\<open>for i in 0..len { for j in 0..(len - i - 1) { ... } }\<close>, with \<open>len\<close> read once.
  Positions are natural numbers; \<open>i < len\<close> inside the loop, so \<open>len - i - 1\<close> never
  underflows, and \<open>j + 1 < len - i\<close> keeps both reads in range.\<close>

definition bubble_sort :: "bool \<Rightarrow> (u32 \<times> u128) list \<Rightarrow> (u32 \<times> u128) list" where
  "bubble_sort is_descending pairs =
     (let len = length pairs
      in foldl (\<lambda>ps i. foldl (bubble_step is_descending) ps [0 ..< len - i - 1]) pairs [0 ..< len])"

definition sort_certificates ::
  "registry_storage \<Rightarrow> u32 list \<Rightarrow> sort_by \<Rightarrow> bool \<Rightarrow> u32 list" where
  "sort_certificates env cert_ids sort_by is_descending =
     (if length cert_ids \<le> 1 then cert_ids
      else map fst (bubble_sort is_descending (key_pairs env cert_ids sort_by)))"

fun filter_by_co2e :: "registry_storage \<Rightarrow> u32 list \<Rightarrow> u128 \<Rightarrow> u128 \<Rightarrow> u32 list" where
  "filter_by_co2e env [] min_tons max_tons = []"
| "filter_by_co2e env (cid # ids) min_tons max_tons =
     (case certificates env cid of
        Some record \<Rightarrow>
          if co2e_tons record \<ge> min_tons \<and> co2e_tons record \<le> max_tons
          then cid # filter_by_co2e env ids min_tons max_tons
          else filter_by_co2e env ids min_tons max_tons
      | None \<Rightarrow> filter_by_co2e env ids min_tons max_tons)"

definition list_certificates_by_farmer ::
  "registry_storage \<Rightarrow> address \<Rightarrow> u32 \<Rightarrow> u32 \<Rightarrow> sort_by \<Rightarrow> bool \<Rightarrow> panic + (u32 list \<times> u32)" where
  "list_certificates_by_farmer env farmer_address' offset limit sort_by is_descending =
     (let all_certs = index_list env farmer_address' True;
          sorted_ids = sort_certificates env all_certs sort_by is_descending
      in paginate_cert_list sorted_ids offset limit)"

definition list_certificates_by_verifier ::
  "registry_storage \<Rightarrow> address \<Rightarrow> u32 \<Rightarrow> u32 \<Rightarrow> panic + (u32 list \<times> u32)" where
  "list_certificates_by_verifier env verifier_address' offset limit =
     (let all_certs = index_list env verifier_address' False
      in paginate_cert_list all_certs offset limit)"

definition filter_by_co2e_range ::
  "registry_storage \<Rightarrow> address \<Rightarrow> u128 \<Rightarrow> u128 \<Rightarrow> u32 \<Rightarrow> u32 \<Rightarrow> panic + (u32 list \<times> u32)" where
  "filter_by_co2e_range env farmer_address' min_tons max_tons offset limit =
     (let all_certs = index_list env farmer_address' True;
          filtered_ids = filter_by_co2e env all_certs min_tons max_tons
      in paginate_cert_list filtered_ids offset limit)"

subsection \<open>Entry points that touch only the registry's own storage\<close>

definition initialize :: "address \<Rightarrow> registry_storage \<Rightarrow> unit registry_result" where
  "initialize admin env =
     (if registry_admin env \<noteq> None then (Inl (Err AlreadyExists), env)
      else (Inr (), env\<lparr>registry_admin := Some admin\<rparr>))"

definition get_admin :: "registry_storage \<Rightarrow> contract_error failure + address" where
  "get_admin env =
     (case registry_admin env of Some admin \<Rightarrow> Inr admin | None \<Rightarrow> Inl (Err NotFound))"

definition set_token_contract_id ::
  "auth \<Rightarrow> address \<Rightarrow> address \<Rightarrow> registry_storage \<Rightarrow> unit registry_result" where
  "set_token_contract_id au admin token_id env =
     (if admin \<notin> au then (Inl (Panic AuthRequired), env)
      else
        (case registry_admin env of
           None \<Rightarrow> (Inl (Err NotAuthorized), env)
         | Some stored_admin \<Rightarrow>
             if stored_admin \<noteq> admin then (Inl (Err NotAuthorized), env)
             else (Inr (), env\<lparr>token_contract_id := Some token_id\<rparr>)))"

definition get_certificate_data ::
  "registry_storage \<Rightarrow> u32 \<Rightarrow> contract_error failure + verification_record" where
  "get_certificate_data env certificate_id =
     (case certificates env certificate_id of
        Some record \<Rightarrow> Inr record
      | None \<Rightarrow> Inl (Err NotFound))"

definition get_certificate_owner ::
  "registry_storage \<Rightarrow> u32 \<Rightarrow> contract_error failure + address" where
  "get_certificate_owner env certificate_id =
     (if certificates env certificate_id = None then Inl (Err NotFound)
      else
        (case certificate_owner env certificate_id of
           Some owner \<Rightarrow> Inr owner
         | None \<Rightarrow> Inl (Err NotFound)))"

definition transfer_certificate ::
  "auth \<Rightarrow> u32 \<Rightarrow> address \<Rightarrow> address \<Rightarrow> registry_storage \<Rightarrow> unit registry_result" where
  "transfer_certificate au certificate_id from to env =
     (if from \<notin> au then (Inl (Panic AuthRequired), env)
      else if certificates env certificate_id = None then (Inl (Err NotFound), env)
      else
        (case certificate_owner env certificate_id of
           None \<Rightarrow> (Inl (Err NotFound), env)
         | Some current_owner \<Rightarrow>
             if current_owner \<noteq> from then (Inl (Err NotOwner), env)
             else
               (Inr (),
                env\<lparr>certificate_owner := (certificate_owner env)(certificate_id \<mapsto> to)\<rparr>)))"

definition burn_certificate :: "auth \<Rightarrow> u32 \<Rightarrow> registry_storage \<Rightarrow> unit registry_result" where
  "burn_certificate au certificate_id env =
     (case certificates env certificate_id of
        None \<Rightarrow> (Inl (Err NotFound), env)
      | Some record \<Rightarrow>
          (case certificate_owner env certificate_id of
             None \<Rightarrow> (Inl (Err NotFound), env)
           | Some owner \<Rightarrow>
               if owner \<notin> au then (Inl (Panic AuthRequired), env)
               else
                 (let tons = co2e_tons record;
                      env1 = env\<lparr>certificate_owner := (certificate_owner env)(certificate_id := None)\<rparr>;
                      env2 = env1\<lparr>certificates := (certificates env1)(certificate_id := None)\<rparr>;
                      env3 = remove_from_index env2 (farmer_address record) certificate_id True;
                      env4 = remove_from_index env3 (verifier_address record) certificate_id False;
                      env5 = decrement_certificate_count env4;
                      env6 = subtract_co2e_from_total env5 tons
                  in (Inr (), env6))))"

subsection \<open>Minting, with the call into the token ledger\<close>

text \<open>
  The registry, its own contract address, and the token contracts deployed on the
  network, by address.
\<close>

record world =
  registry_address :: address
  registry :: registry_storage
  ledgers :: "address \<rightharpoonup> token_storage"

text \<open>
  Modelled from the spec: the host's cross-contract invocation
  \<open>env.invoke_contract(token_contract_id, "mint", [farmer, amount])\<close>, which belongs to
  the Soroban SDK and is not among the sources. As the specification describes it (an
  injected ledger client \<open>mint(to, amount) -> Result\<close> whose failure the registry does
  not propagate), it runs \<open>mint\<close> of the contract found at that address and hands its
  result back to the caller; the calling contract counts as an authorizer of its own
  direct call, and an address with no contract is a failure too. \<open>mint_certificate\<close>
  binds the result to \<open>_\<close>: whatever the nested call answers, the mint goes on to
  \<open>Ok(())\<close>.
\<close>

definition invoke_mint ::
  "auth \<Rightarrow> address \<Rightarrow> address \<Rightarrow> i128 \<Rightarrow> world \<Rightarrow> (token_error failure + unit) \<times> world" where
  "invoke_mint au token to amount w =
     (case ledgers w token of
        None \<Rightarrow> (Inl (Panic HostError), w)
      | Some ledger \<Rightarrow>
          (case mint (insert (registry_address w) au) to amount ledger of
             (r, ledger') \<Rightarrow> (r, w\<lparr>ledgers := (ledgers w)(token \<mapsto> ledger')\<rparr>)))"

definition mint_certificate ::
  "auth \<Rightarrow> u32 \<Rightarrow> verification_record \<Rightarrow> world \<Rightarrow> (contract_error failure + unit) \<times> world" where
  "mint_certificate au certificate_id record w =
     (let env = registry w in
      if verifier_address record \<notin> au then (Inl (Panic AuthRequired), w)
      else if hectares_not_burned record = 0 then (Inl (Err InvalidInput), w)
      else if co2e_tons record = 0 then (Inl (Err InvalidInput), w)
      else if certificates env certificate_id \<noteq> None then (Inl (Err AlreadyExists), w)
      else
        (let env1 = env\<lparr>certificates := (certificates env)(certificate_id \<mapsto> record)\<rparr> in
         case increment_certificate_count env1 of
           None \<Rightarrow> (Inl (Panic ArithOverflow), w\<lparr>registry := env1\<rparr>)
         | Some env2 \<Rightarrow>
             (case add_co2e_to_total env2 (co2e_tons record) of
                None \<Rightarrow> (Inl (Panic ArithOverflow), w\<lparr>registry := env2\<rparr>)
              | Some env3 \<Rightarrow>
                  (let env4 = add_to_index env3 (farmer_address record) certificate_id True;
                       env5 = add_to_index env4 (verifier_address record) certificate_id False;
                       env6 = env5\<lparr>certificate_owner :=
                                (certificate_owner env5)(certificate_id \<mapsto> farmer_address record)\<rparr>;
                       w1 = w\<lparr>registry := env6\<rparr>;
                       w2 = (case token_contract_id env6 of
                               None \<Rightarrow> w1
                             | Some token_contract \<Rightarrow>
                                 (let amount = co2e_tons record
                                  in snd (invoke_mint au token_contract
                                            (farmer_address record) amount w1)))
                   in (Inr (), w2)))))"

section \<open>Public entry points and transactions\<close>

text \<open>The methods the contracts export (the ones the generated clients list), as data, so
  that "every entry point" and "every sequence of calls" can be quantified over.\<close>

datatype registry_call =
    Initialize address
  | SetTokenContractId address address
  | MintCertificate u32 verification_record
  | GetCertificateData u32
  | GetCertificateOwner u32
  | TransferCertificate u32 address address
  | BurnCertificate u32
  | ListCertificatesByFarmer address u32 u32 sort_by bool
  | ListCertificatesByVerifier address u32 u32
  | FilterByCo2eRange address u128 u128 u32 u32
  | GetTotalCertificates
  | GetTotalCo2e
  | GetAdmin

datatype registry_value =
    Done
  | RecordValue verification_record
  | AddressValue address
  | PageValue "u32 list" u32
  | CountValue u32
  | TonsValue u128

definition on_registry ::
  "(registry_storage \<Rightarrow> unit registry_result) \<Rightarrow> world
     \<Rightarrow> (contract_error failure + registry_value) \<times> world" where
  "on_registry f w =
     (case f (registry w) of (r, env') \<Rightarrow> (map_sum (\<lambda>e. e) (\<lambda>_. Done) r, w\<lparr>registry := env'\<rparr>))"

definition page_result ::
  "panic + (u32 list \<times> u32) \<Rightarrow> contract_error failure + registry_value" where
  "page_result r = (case r of Inl p \<Rightarrow> Inl (Panic p) | Inr (page, n) \<Rightarrow> Inr (PageValue page n))"

fun registry_exec ::
  "auth \<Rightarrow> registry_call \<Rightarrow> world \<Rightarrow> (contract_error failure + registry_value) \<times> world" where
  "registry_exec au (Initialize admin) w = on_registry (initialize admin) w"
| "registry_exec au (SetTokenContractId admin token_id) w =
     on_registry (set_token_contract_id au admin token_id) w"
| "registry_exec au (MintCertificate certificate_id record) w =
     (case mint_certificate au certificate_id record w of
        (r, w') \<Rightarrow> (map_sum (\<lambda>e. e) (\<lambda>_. Done) r, w'))"
| "registry_exec au (GetCertificateData certificate_id) w =
     (map_sum (\<lambda>e. e) RecordValue (get_certificate_data (registry w) certificate_id), w)"
| "registry_exec au (GetCertificateOwner certificate_id) w =
     (map_sum (\<lambda>e. e) AddressValue (get_certificate_owner (registry w) certificate_id), w)"
| "registry_exec au (TransferCertificate certificate_id from to) w =
     on_registry (transfer_certificate au certificate_id from to) w"
| "registry_exec au (BurnCertificate certificate_id) w =
     on_registry (burn_certificate au certificate_id) w"
| "registry_exec au (ListCertificatesByFarmer farmer offset limit sort_by is_descending) w =
     (page_result (list_certificates_by_farmer (registry w) farmer offset limit sort_by
                     is_descending), w)"
| "registry_exec au (ListCertificatesByVerifier verifier offset limit) w =
     (page_result (list_certificates_by_verifier (registry w) verifier offset limit), w)"
| "registry_exec au (FilterByCo2eRange farmer min_tons max_tons offset limit) w =
     (page_result (filter_by_co2e_range (registry w) farmer min_tons max_tons offset limit), w)"
| "registry_exec au GetTotalCertificates w = (Inr (CountValue (get_total_certificates (registry w))), w)"
| "registry_exec au GetTotalCo2e w = (Inr (TonsValue (get_total_co2e (registry w))), w)"
| "registry_exec au GetAdmin w = (map_sum (\<lambda>e. e) AddressValue (get_admin (registry w)), w)"

datatype token_call =
    TokenInitialize address
  | Mint address i128
  | Transfer address address i128
  | Balance address
  | Approve address address i128
  | Allowance address address
  | TransferFrom address address address i128

fun token_exec ::
  "auth \<Rightarrow> token_call \<Rightarrow> token_storage \<Rightarrow> (token_error failure + i128 option) \<times> token_storage" where
  "token_exec au (TokenInitialize admin) env =
     (case token_initialize admin env of (r, env') \<Rightarrow> (map_sum (\<lambda>e. e) (\<lambda>_. None) r, env'))"
| "token_exec au (Mint to amount) env =
     (case mint au to amount env of (r, env') \<Rightarrow> (map_sum (\<lambda>e. e) (\<lambda>_. None) r, env'))"
| "token_exec au (Transfer from to amount) env =
     (case transfer au from to amount env of (r, env') \<Rightarrow> (map_sum (\<lambda>e. e) (\<lambda>_. None) r, env'))"
| "token_exec au (Balance a) env = (Inr (Some (balance env a)), env)"
| "token_exec au (Approve from spender amount) env =
     (case approve au from spender amount env of
        (r, env') \<Rightarrow> (map_sum (\<lambda>e. e) (\<lambda>_. None) r, env'))"
| "token_exec au (Allowance from spender) env = (Inr (Some (allowance env from spender)), env)"
| "token_exec au (TransferFrom spender from to amount) env =
     (case transfer_from au spender from to amount env of
        (r, env') \<Rightarrow> (map_sum (\<lambda>e. e) (\<lambda>_. None) r, env'))"

text \<open>
  A call is a transaction: the host keeps the writes of a call that returns \<open>Ok\<close> and
  discards those of a call that fails or aborts. \<open>run\<close> executes a sequence of registry
  calls, each with its own set of authorizers.
\<close>

definition commit :: "('e + 'a) \<times> 's \<Rightarrow> 's \<Rightarrow> 's" where
  "commit outcome before = (case fst outcome of Inl _ \<Rightarrow> before | Inr _ \<Rightarrow> snd outcome)"

definition step :: "world \<Rightarrow> auth \<times> registry_call \<Rightarrow> world" where
  "step w call = commit (registry_exec (fst call) (snd call) w) w"

definition run :: "(auth \<times> registry_call) list \<Rightarrow> world \<Rightarrow> world" where
  "run calls w = foldl step w calls"

definition empty_registry :: registry_storage where
  "empty_registry =
     \<lparr>certificates = Map.empty, certificate_owner = Map.empty, farmer_cert_list = Map.empty,
      verifier_cert_list = Map.empty, total_certificates = None, total_co2e = None,
      registry_admin = None, token_contract_id = None\<rparr>"

definition initial_world :: "address \<Rightarrow> (address \<rightharpoonup> token_storage) \<Rightarrow> world" where
  "initial_world self deployed =
     \<lparr>registry_address = self, registry = empty_registry, ledgers = deployed\<rparr>"

definition empty_ledger :: token_storage where
  "empty_ledger = \<lparr>token_admin = None, balances = Map.empty, allowances = Map.empty\<rparr>"

section \<open>Well-formed registry storage\<close>

text \<open>
  What the claims say of the stored state, as predicates: the owner mapping has the keys
  of the record store; the two counters equal the number of stored records and the sum
  of their tons; each index list is duplicate-free and holds exactly the ids whose record
  names that actor. \<open>minted\<close> and \<open>burned\<close> are the storage that the writes of
  \<open>mint_certificate\<close> and of \<open>burn_certificate\<close> leave behind, in the order the code
  performs them; \<open>pruned\<close> is what \<open>remove_from_index\<close> does to a list.
\<close>

definition owners_ok :: "registry_storage \<Rightarrow> bool" where
  "owners_ok env \<longleftrightarrow> dom (certificate_owner env) = dom (certificates env)"

definition live_tons :: "registry_storage \<Rightarrow> nat" where
  "live_tons env = (\<Sum>cid \<in> dom (certificates env). unat (co2e_tons (the (certificates env cid))))"

definition counters_ok :: "registry_storage \<Rightarrow> bool" where
  "counters_ok env \<longleftrightarrow>
     unat (get_total_certificates env) = card (dom (certificates env))
     \<and> unat (get_total_co2e env) = live_tons env"

definition actor_of :: "bool \<Rightarrow> verification_record \<Rightarrow> address" where
  "actor_of is_farmer record = (if is_farmer then farmer_address record else verifier_address record)"

definition index_ok :: "registry_storage \<Rightarrow> bool \<Rightarrow> bool" where
  "index_ok env is_farmer \<longleftrightarrow>
     (\<forall>a. distinct (index_list env a is_farmer))
     \<and> (\<forall>a cid. cid \<in> set (index_list env a is_farmer) \<longleftrightarrow>
           (\<exists>r. certificates env cid = Some r \<and> actor_of is_farmer r = a))"

definition registry_inv :: "registry_storage \<Rightarrow> bool" where
  "registry_inv env \<longleftrightarrow> owners_ok env \<and> counters_ok env \<and> index_ok env True \<and> index_ok env False"

definition minted ::
  "registry_storage \<Rightarrow> u32 \<Rightarrow> verification_record \<Rightarrow> u32 \<Rightarrow> u128 \<Rightarrow> registry_storage" where
  "minted env cid r c t =
     (let env1 = env\<lparr>certificates := (certificates env)(cid \<mapsto> r)\<rparr>;
          env2 = env1\<lparr>total_certificates := Some c\<rparr>;
          env3 = env2\<lparr>total_co2e := Some t\<rparr>;
          env4 = add_to_index env3 (farmer_address r) cid True;
          env5 = add_to_index env4 (verifier_address r) cid False
      in env5\<lparr>certificate_owner := (certificate_owner env5)(cid \<mapsto> farmer_address r)\<rparr>)"

definition pruned :: "u32 list \<Rightarrow> u32 \<Rightarrow> u32 list" where
  "pruned l cid = (case find_index l cid of None \<Rightarrow> l | Some i \<Rightarrow> swap_and_pop l i)"

definition burned :: "registry_storage \<Rightarrow> u32 \<Rightarrow> verification_record \<Rightarrow> registry_storage" where
  "burned env cid r =
     subtract_co2e_from_total
       (decrement_certificate_count
          (remove_from_index
             (remove_from_index
                (env\<lparr>certificate_owner := (certificate_owner env)(cid := None),
                     certificates := (certificates env)(cid := None)\<rparr>)
                (farmer_address r) cid True)
             (verifier_address r) cid False))
       (co2e_tons r)"

text \<open>The order in which a sort direction lets two pairs stand: the negation of
  \<open>should_swap\<close>.\<close>

definition may_precede :: "bool \<Rightarrow> (u32 \<times> u128) \<Rightarrow> (u32 \<times> u128) \<Rightarrow> bool" where
  "may_precede is_descending a b = (if is_descending then snd b \<le> snd a else snd a \<le> snd b)"

section \<open>Example states\<close>

text \<open>A ledger in which alice holds 1000 tokens and has approved bob for 300; a registry
  whose only content is one farmer's index list; a certificate of 100 tons over 10
  hectares and the world after minting it as id 1; a world whose registry points at a
  token contract that was never initialized.\<close>

definition alice_300 :: token_storage where
  "alice_300 = \<lparr>token_admin = Some ''admin'', balances = [''alice'' \<mapsto> 1000],
      allowances = [(''alice'', ''bob'') \<mapsto> 300]\<rparr>"

definition example_index :: registry_storage where
  "example_index = empty_registry\<lparr>farmer_cert_list := [''farmer'' \<mapsto> [1, 2, 3]]\<rparr>"

definition sample_record :: verification_record where
  "sample_record =
     \<lparr>verifier_address = ''verifier'', farmer_address = ''farmer'',
      hectares_not_burned = 10, co2e_tons = 100, metadata_hash = 0\<rparr>"

definition one_minted :: world where
  "one_minted = run [({''verifier''}, MintCertificate 1 sample_record)]
                    (initial_world ''registry'' Map.empty)"

definition unconfigured_token_world :: world where
  "unconfigured_token_world =
     \<lparr>registry_address = ''registry'',
      registry = empty_registry\<lparr>registry_admin := Some ''admin'', token_contract_id := Some ''token''\<rparr>,
      ledgers = [''token'' \<mapsto> empty_ledger]\<rparr>"

text \<open>The world after minting the same certificate data as ids 1 and 2: two certificates
  of one farmer with equal tons.\<close>

definition two_minted :: world where
  "two_minted = run [({''verifier''}, MintCertificate 1 sample_record),
                     ({''verifier''}, MintCertificate 2 sample_record)]
                    (initial_world ''registry'' Map.empty)"

section \<open>Checked arithmetic\<close>

lemma sint_i128_bounds: "- (2 ^ 127) \<le> sint (x :: i128) \<and> sint x < 2 ^ 127"
  using sint_ge [of x] sint_lt [of x] by simp

lemma add_i128_Some:
  "add_i128 a b = Some c \<Longrightarrow> c = a + b \<and> sint c = sint a + sint b"
  by (auto simp: add_i128_def sint_word_ariths signed_take_bit_int_eq_self split: if_splits)

lemma sub_i128_Some:
  "sub_i128 a b = Some c \<Longrightarrow> c = a - b \<and> sint c = sint a - sint b"
  by (auto simp: sub_i128_def sint_word_ariths signed_take_bit_int_eq_self split: if_splits)

lemma sub_i128_guarded:
  "0 < sint b \<Longrightarrow> sint b \<le> sint a \<Longrightarrow> sub_i128 a b = Some (a - b)"
  using sint_i128_bounds [of a] sint_i128_bounds [of b] by (simp add: sub_i128_def)

lemma add_i128_back:
  "0 < sint b \<Longrightarrow> sint b \<le> sint a \<Longrightarrow> add_i128 (a - b) b = Some a"
proof -
  assume h: "0 < sint b" "sint b \<le> sint a"
  have "sub_i128 a b = Some (a - b)" using h by (rule sub_i128_guarded)
  then have s: "sint (a - b) = sint a - sint b" using sub_i128_Some by blast
  show ?thesis using sint_i128_bounds [of a] by (simp add: add_i128_def s)
qed

section \<open>Token ledger: transfers\<close>

lemma get_balance_set_balance:
  "get_balance (set_balance env a b) x = (if x = a then b else get_balance env x)"
  by (simp add: get_balance_def set_balance_def)

lemma allowance_set_balance: "allowance (set_balance env a b) f s = allowance env f s"
  by (simp add: allowance_def set_balance_def)

text \<open>
  Claim C10. A self-transfer \<open>transfer(a, a, m)\<close> with \<open>0 < m \<le> balance(a)\<close>, authorized by
  \<open>a\<close>, succeeds and leaves the whole ledger storage as it was, so the balance of \<open>a\<close> and
  every other balance are unchanged: the debit is stored before the credit reads the
  balance again.
\<close>

theorem self_transfer_keeps_balances:
  assumes "a \<in> au" and "0 < sint m" and "sint m \<le> sint (balance env a)"
  shows "transfer au a a m env = (Inr (), env)"
proof -
  have pos: "0 < sint (get_balance env a)" using assms by (simp add: balance_def)
  have "get_balance env a \<noteq> 0" using pos by auto
  then have stored: "balances env a = Some (get_balance env a)"
    by (auto simp: get_balance_def split: option.splits)
  have le: "sint m \<le> sint (get_balance env a)" using assms by (simp add: balance_def)
  have d: "sub_i128 (get_balance env a) m = Some (get_balance env a - m)"
    using assms(2) le by (rule sub_i128_guarded)
  have c: "add_i128 (get_balance env a - m) m = Some (get_balance env a)"
    using assms(2) le by (rule add_i128_back)
  have g: "get_balance (set_balance env a (get_balance env a - m)) a = get_balance env a - m"
    by (simp add: get_balance_def set_balance_def)
  have restored: "set_balance (set_balance env a (get_balance env a - m)) a (get_balance env a) = env"
    using stored by (simp add: set_balance_def map_upd_triv)
  show ?thesis
    using assms(1,2) le by (simp add: transfer_def Let_def d g c restored)
qed

theorem self_transfer_keeps_balances_witness:
  "''alice'' \<in> {''alice''} \<and> 0 < sint (200 :: i128) \<and> sint (200 :: i128) \<le> sint (balance alice_300 ''alice'')
   \<and> transfer {''alice''} ''alice'' ''alice'' 200 alice_300 = (Inr (), alice_300)"
proof -
  have h: "''alice'' \<in> {''alice''}" "0 < sint (200 :: i128)"
          "sint (200 :: i128) \<le> sint (balance alice_300 ''alice'')"
    by (simp_all add: balance_def get_balance_def alice_300_def)
  from self_transfer_keeps_balances [OF h] h show ?thesis by simp
qed

text \<open>
  Claim C7. For every call \<open>transfer_from(spender, from, to, amount)\<close> with the spender
  authorized, the failures come in the order the claim lists them, which is the order of
  the checks in the code: \<open>InvalidAmount\<close> if \<open>amount \<le> 0\<close>; otherwise
  \<open>InsufficientBalance\<close> if the balance of \<open>from\<close> is below the amount; otherwise
  \<open>InsufficientAllowance\<close> if \<open>allowance(from, spender)\<close> is below the amount; each
  failure leaves the storage untouched. On success \<open>from\<close> is debited and \<open>to\<close>
  credited by the amount (the two cancel when \<open>from = to\<close>), no other balance moves, and
  the allowance of the spender decreases by exactly the amount, so the stored allowance
  never becomes negative.
\<close>

theorem transfer_from_spec:
  assumes auth: "spender \<in> au"
  shows "(sint amount \<le> 0 \<longrightarrow>
            transfer_from au spender from to amount env = (Inl (Err InvalidAmount), env))
       \<and> (0 < sint amount \<and> sint (balance env from) < sint amount \<longrightarrow>
            transfer_from au spender from to amount env = (Inl (Err InsufficientBalance), env))
       \<and> (0 < sint amount \<and> sint amount \<le> sint (balance env from)
            \<and> sint (allowance env from spender) < sint amount \<longrightarrow>
            transfer_from au spender from to amount env = (Inl (Err InsufficientAllowance), env))
       \<and> (\<forall>env'. transfer_from au spender from to amount env = (Inr (), env') \<longrightarrow>
            (from \<noteq> to \<longrightarrow>
               sint (balance env' from) = sint (balance env from) - sint amount
             \<and> sint (balance env' to) = sint (balance env to) + sint amount)
          \<and> (from = to \<longrightarrow> balance env' from = balance env from)
          \<and> (\<forall>x. x \<noteq> from \<and> x \<noteq> to \<longrightarrow> balance env' x = balance env x)
          \<and> sint (allowance env' from spender) = sint (allowance env from spender) - sint amount
          \<and> 0 \<le> sint (allowance env' from spender))"
proof (intro conjI allI impI)
  assume "sint amount \<le> 0"
  then show "transfer_from au spender from to amount env = (Inl (Err InvalidAmount), env)"
    using auth by (simp add: transfer_from_def)
next
  assume "0 < sint amount \<and> sint (balance env from) < sint amount"
  then show "transfer_from au spender from to amount env = (Inl (Err InsufficientBalance), env)"
    using auth by (simp add: transfer_from_def balance_def Let_def)
next
  assume "0 < sint amount \<and> sint amount \<le> sint (balance env from)
            \<and> sint (allowance env from spender) < sint amount"
  then show "transfer_from au spender from to amount env = (Inl (Err InsufficientAllowance), env)"
    using auth by (simp add: transfer_from_def balance_def Let_def)
next
  fix env'
  assume ok: "transfer_from au spender from to amount env = (Inr (), env')"
  from ok auth have pos: "0 < sint amount"
    by (auto simp: transfer_from_def split: if_splits)
  from ok auth pos have bal: "sint amount \<le> sint (get_balance env from)"
    by (auto simp: transfer_from_def Let_def split: if_splits)
  from ok auth pos bal have alw: "sint amount \<le> sint (allowance env from spender)"
    by (auto simp: transfer_from_def Let_def split: if_splits)
  define env1 where "env1 = set_balance env from (get_balance env from - amount)"
  have d: "sub_i128 (get_balance env from) amount = Some (get_balance env from - amount)"
    using pos bal by (rule sub_i128_guarded)
  have a: "sub_i128 (allowance env from spender) amount = Some (allowance env from spender - amount)"
    using pos alw by (rule sub_i128_guarded)
  from ok auth pos bal alw obtain credited where
    cr: "add_i128 (get_balance env1 to) amount = Some credited" and
    env': "env' = (set_balance env1 to credited)\<lparr>allowances :=
             (allowances (set_balance env1 to credited))((from, spender) \<mapsto>
                allowance env from spender - amount)\<rparr>"
    by (auto simp: transfer_from_def Let_def d a env1_def split: option.splits)
  have crv: "credited = get_balance env1 to + amount"
       "sint credited = sint (get_balance env1 to) + sint amount"
    using add_i128_Some [OF cr] by blast+
  have sd: "sint (get_balance env from - amount) = sint (get_balance env from) - sint amount"
    using sub_i128_Some [OF d] by simp
  have sa: "sint (allowance env from spender - amount) = sint (allowance env from spender) - sint amount"
    using sub_i128_Some [OF a] by simp
  have bal': "\<And>x. get_balance env' x = (if x = to then credited else get_balance env1 x)"
    by (simp add: env' get_balance_def set_balance_def)
  have b1: "\<And>x. get_balance env1 x = (if x = from then get_balance env from - amount else get_balance env x)"
    by (simp add: env1_def get_balance_set_balance)
  show "from \<noteq> to \<Longrightarrow> sint (balance env' from) = sint (balance env from) - sint amount"
    by (simp add: bal' b1 sd balance_def)
  show "from \<noteq> to \<Longrightarrow> sint (balance env' to) = sint (balance env to) + sint amount"
    using crv(2) by (simp add: bal' b1 balance_def)
  show "from = to \<Longrightarrow> balance env' from = balance env from"
    by (simp add: bal' b1 crv(1) balance_def)
  show "\<And>x. x \<noteq> from \<and> x \<noteq> to \<Longrightarrow> balance env' x = balance env x"
    by (simp add: bal' b1 balance_def)
  have al': "allowance env' from spender = allowance env from spender - amount"
    by (simp add: env' allowance_def)
  show "sint (allowance env' from spender) = sint (allowance env from spender) - sint amount"
    by (simp add: al' sa)
  show "0 \<le> sint (allowance env' from spender)"
    using alw by (simp add: al' sa)
qed

theorem transfer_from_spec_witness:
  "''bob'' \<in> {''bob''}
   \<and> transfer_from {''bob''} ''bob'' ''alice'' ''charlie'' 0 alice_300
        = (Inl (Err InvalidAmount), alice_300)
   \<and> transfer_from {''bob''} ''bob'' ''alice'' ''charlie'' 2000 alice_300
        = (Inl (Err InsufficientBalance), alice_300)
   \<and> transfer_from {''bob''} ''bob'' ''alice'' ''charlie'' 400 alice_300
        = (Inl (Err InsufficientAllowance), alice_300)
   \<and> fst (transfer_from {''bob''} ''bob'' ''alice'' ''charlie'' 200 alice_300) = Inr ()
   \<and> sint (allowance (snd (transfer_from {''bob''} ''bob'' ''alice'' ''charlie'' 200 alice_300))
              ''alice'' ''bob'') = 100
   \<and> sint (balance (snd (transfer_from {''bob''} ''bob'' ''alice'' ''charlie'' 200 alice_300))
              ''alice'') = 800
   \<and> sint (balance (snd (transfer_from {''bob''} ''bob'' ''alice'' ''charlie'' 200 alice_300))
              ''charlie'') = 200"
proof -
  have h: "''bob'' \<in> {''bob''}" by simp
  have b: "balance alice_300 ''alice'' = 1000" "balance alice_300 ''charlie'' = 0"
          "allowance alice_300 ''alice'' ''bob'' = 300"
    by (simp_all add: balance_def get_balance_def allowance_def alice_300_def)
  have ok: "fst (transfer_from {''bob''} ''bob'' ''alice'' ''charlie'' 200 alice_300) = Inr ()"
    by (simp add: transfer_from_def alice_300_def get_balance_def set_balance_def allowance_def
          sub_i128_def add_i128_def Let_def)
  then have eq: "transfer_from {''bob''} ''bob'' ''alice'' ''charlie'' 200 alice_300
      = (Inr (), snd (transfer_from {''bob''} ''bob'' ''alice'' ''charlie'' 200 alice_300))"
    by (metis prod.collapse)
  have ne: "''alice'' \<noteq> ''charlie''" by simp
  from transfer_from_spec [OF h, of 0 "''alice''" "''charlie''" alice_300]
  have c1: "transfer_from {''bob''} ''bob'' ''alice'' ''charlie'' 0 alice_300
        = (Inl (Err InvalidAmount), alice_300)" by simp
  from transfer_from_spec [OF h, of 2000 "''alice''" "''charlie''" alice_300]
  have c2: "transfer_from {''bob''} ''bob'' ''alice'' ''charlie'' 2000 alice_300
        = (Inl (Err InsufficientBalance), alice_300)" by (simp add: b)
  from transfer_from_spec [OF h, of 400 "''alice''" "''charlie''" alice_300]
  have c3: "transfer_from {''bob''} ''bob'' ''alice'' ''charlie'' 400 alice_300
        = (Inl (Err InsufficientAllowance), alice_300)" by (simp add: b)
  from transfer_from_spec [OF h, of 200 "''alice''" "''charlie''" alice_300] eq ne
  have c4: "sint (allowance (snd (transfer_from {''bob''} ''bob'' ''alice'' ''charlie'' 200 alice_300))
              ''alice'' ''bob'') = 100
   \<and> sint (balance (snd (transfer_from {''bob''} ''bob'' ''alice'' ''charlie'' 200 alice_300))
              ''alice'') = 800
   \<and> sint (balance (snd (transfer_from {''bob''} ''bob'' ''alice'' ''charlie'' 200 alice_300))
              ''charlie'') = 200"
    by (simp add: b)
  from h c1 c2 c3 ok c4 show ?thesis by blast
qed

section \<open>Index lists: swap and pop\<close>

lemma find_index_None: "find_index l c = None \<longleftrightarrow> c \<notin> set l"
  by (induction l) auto

lemma find_index_Some: "find_index l c = Some i \<Longrightarrow> i < length l \<and> l ! i = c"
  by (induction l arbitrary: i) (auto split: if_splits)

lemma swap_and_pop_snoc:
  "swap_and_pop (xs @ [z]) i = (if i < length xs then xs[i := z] else xs)"
  by (simp add: swap_and_pop_def list_update_append)

lemma mset_swap_and_pop:
  assumes "i < length l"
  shows "mset (swap_and_pop l i) = mset l - {#l ! i#}"
proof (cases l rule: rev_cases)
  case Nil
  with assms show ?thesis by simp
next
  case (snoc xs z)
  show ?thesis
  proof (cases "i < length xs")
    case True
    then have "xs ! i \<in># mset xs" by simp
    then have "add_mset z (mset xs - {#xs ! i#}) = add_mset z (mset xs) - {#xs ! i#}"
      by simp
    then show ?thesis
      using True by (simp add: snoc swap_and_pop_snoc mset_update nth_append)
  next
    case False
    with assms snoc have "i = length xs" by simp
    then show ?thesis by (simp add: snoc swap_and_pop_snoc)
  qed
qed

lemma index_list_set_index_list:
  "index_list (set_index_list env a f l) b g = (if b = a \<and> g = f then l else index_list env b g)"
  by (simp add: index_list_def set_index_list_def)

lemma remove_from_index_alt:
  "remove_from_index env a c f =
     (case find_index (index_list env a f) c of
        None \<Rightarrow> env
      | Some i \<Rightarrow> set_index_list env a f (swap_and_pop (index_list env a f) i))"
  by (simp add: remove_from_index_def index_list_def split: option.splits)

lemma index_list_remove_from_index_same:
  "index_list (remove_from_index env a c f) a f =
     (case find_index (index_list env a f) c of
        None \<Rightarrow> index_list env a f
      | Some i \<Rightarrow> swap_and_pop (index_list env a f) i)"
  by (simp add: remove_from_index_alt index_list_set_index_list split: option.splits)

lemma index_list_remove_from_index_other:
  "b \<noteq> a \<or> g \<noteq> f \<Longrightarrow> index_list (remove_from_index env a c f) b g = index_list env b g"
  by (auto simp add: remove_from_index_alt index_list_set_index_list split: option.splits)

text \<open>
  Claim C9. For every index list and certificate id: if the id occurs exactly once,
  \<open>remove_from_index\<close> removes that occurrence, the id is absent afterwards and every
  other id keeps its number of occurrences (the multiset of the remaining ids is
  preserved); if the id is absent, nothing is written and the storage is unchanged.
\<close>

theorem remove_from_index_swap_and_pop:
  "(count_list (index_list env actor is_farmer) cid = 1 \<longrightarrow>
      mset (index_list (remove_from_index env actor cid is_farmer) actor is_farmer)
        = mset (index_list env actor is_farmer) - {#cid#}
    \<and> cid \<notin> set (index_list (remove_from_index env actor cid is_farmer) actor is_farmer)
    \<and> (\<forall>x. x \<noteq> cid \<longrightarrow>
          count_list (index_list (remove_from_index env actor cid is_farmer) actor is_farmer) x
            = count_list (index_list env actor is_farmer) x))
   \<and> (cid \<notin> set (index_list env actor is_farmer) \<longrightarrow>
        remove_from_index env actor cid is_farmer = env)"
proof (intro conjI impI)
  let ?l = "index_list env actor is_farmer"
  let ?l' = "index_list (remove_from_index env actor cid is_farmer) actor is_farmer"
  {
    assume once: "count_list ?l cid = 1"
    then have "cid \<in> set ?l" by (metis count_list_0_iff zero_neq_one)
    then obtain i where i: "find_index ?l cid = Some i"
      using find_index_None [of ?l cid] by auto
    then have il: "i < length ?l" "?l ! i = cid" using find_index_Some by blast+
    have m: "mset ?l' = mset ?l - {#cid#}"
      using mset_swap_and_pop [OF il(1)] il(2) i by (simp add: index_list_remove_from_index_same)
    show "mset ?l' = mset ?l - {#cid#}" by (rule m)
    have c: "\<And>x. count_list ?l' x = count (mset ?l - {#cid#}) x"
      using m by (metis count_mset)
    have "count_list ?l' cid = 0" using once by (simp add: c count_mset)
    then show "cid \<notin> set ?l'" by (simp add: count_list_0_iff)
    show "\<forall>x. x \<noteq> cid \<longrightarrow> count_list ?l' x = count_list ?l x"
      by (simp add: c count_mset)
  }
  assume "cid \<notin> set ?l"
  then show "remove_from_index env actor cid is_farmer = env"
    using find_index_None [of ?l cid] by (simp add: remove_from_index_alt)
qed

theorem remove_from_index_swap_and_pop_witness:
  "count_list (index_list example_index ''farmer'' True) 1 = 1
   \<and> index_list (remove_from_index example_index ''farmer'' 1 True) ''farmer'' True = [3, 2]
   \<and> mset (index_list (remove_from_index example_index ''farmer'' 1 True) ''farmer'' True)
        = mset [1, 2, 3] - {#1#}
   \<and> 7 \<notin> set (index_list example_index ''farmer'' True)
   \<and> remove_from_index example_index ''farmer'' 7 True = example_index"
proof -
  have l: "index_list example_index ''farmer'' True = [1, 2, 3]"
    by (simp add: example_index_def index_list_def)
  have h1: "count_list (index_list example_index ''farmer'' True) 1 = 1" by (simp add: l)
  have h2: "7 \<notin> set (index_list example_index ''farmer'' True)" by (simp add: l)
  have e: "index_list (remove_from_index example_index ''farmer'' 1 True) ''farmer'' True = [3, 2]"
    by (simp add: remove_from_index_def example_index_def index_list_def set_index_list_def
          swap_and_pop_def)
  from remove_from_index_swap_and_pop [of example_index "''farmer''" True 1] h1
  have m: "mset (index_list (remove_from_index example_index ''farmer'' 1 True) ''farmer'' True)
        = mset [1, 2, 3] - {#1#}" by (simp only: l) 
  from remove_from_index_swap_and_pop [of example_index "''farmer''" True 7] h2
  have n: "remove_from_index example_index ''farmer'' 7 True = example_index" by blast
  from h1 e m h2 n show ?thesis by blast
qed

section \<open>Registry invariants\<close>

lemma add_u32_Some: "add_u32 a b = Some c \<Longrightarrow> unat c = unat a + unat b"
  by (auto simp: add_u32_def unat_word_ariths split: if_splits)

lemma add_u128_Some: "add_u128 a b = Some c \<Longrightarrow> unat c = unat a + unat b"
  by (auto simp: add_u128_def unat_word_ariths split: if_splits)

lemma registry_invoke_mint: "registry (snd (invoke_mint au t to amount w)) = registry w"
  by (simp add: invoke_mint_def split: option.splits prod.splits)

lemma add_to_index_fields:
  "certificates (add_to_index env a c f) = certificates env"
  "certificate_owner (add_to_index env a c f) = certificate_owner env"
  "total_certificates (add_to_index env a c f) = total_certificates env"
  "total_co2e (add_to_index env a c f) = total_co2e env"
  "registry_admin (add_to_index env a c f) = registry_admin env"
  "token_contract_id (add_to_index env a c f) = token_contract_id env"
  by (simp_all add: add_to_index_def set_index_list_def Let_def)

lemma mint_certificate_Ok:
  assumes ok: "mint_certificate au cid r w = (Inr u, w')"
  shows "verifier_address r \<in> au \<and> hectares_not_burned r \<noteq> 0 \<and> co2e_tons r \<noteq> 0
    \<and> certificates (registry w) cid = None
    \<and> (\<exists>c t. add_u32 (get_total_certificates (registry w)) 1 = Some c
          \<and> add_u128 (get_total_co2e (registry w)) (co2e_tons r) = Some t
          \<and> registry w' = minted (registry w) cid r c t)"
proof -
  have chk: "verifier_address r \<in> au \<and> hectares_not_burned r \<noteq> 0 \<and> co2e_tons r \<noteq> 0
    \<and> certificates (registry w) cid = None"
    using ok unfolding mint_certificate_def Let_def by (simp split: if_splits)
  obtain c where c: "add_u32 (get_total_certificates (registry w)) 1 = Some c"
    using ok chk unfolding mint_certificate_def Let_def increment_certificate_count_def
    by (cases "add_u32 (get_total_certificates (registry w)) 1")
       (simp_all add: get_total_certificates_def)
  obtain t where t: "add_u128 (get_total_co2e (registry w)) (co2e_tons r) = Some t"
    using ok chk c unfolding mint_certificate_def Let_def increment_certificate_count_def
      add_co2e_to_total_def
    by (cases "add_u128 (get_total_co2e (registry w)) (co2e_tons r)")
       (simp_all add: get_total_certificates_def get_total_co2e_def)
  have "registry w' = minted (registry w) cid r c t"
    using ok chk c t unfolding mint_certificate_def Let_def increment_certificate_count_def
      add_co2e_to_total_def
    by (auto simp add: get_total_certificates_def get_total_co2e_def registry_invoke_mint
          minted_def Let_def split: option.splits)
  with chk c t show ?thesis by blast
qed

lemma minted_fields:
  "certificates (minted env cid r c t) = (certificates env)(cid \<mapsto> r)"
  "certificate_owner (minted env cid r c t) = (certificate_owner env)(cid \<mapsto> farmer_address r)"
  "get_total_certificates (minted env cid r c t) = c"
  "get_total_co2e (minted env cid r c t) = t"
  "registry_admin (minted env cid r c t) = registry_admin env"
  "token_contract_id (minted env cid r c t) = token_contract_id env"
  by (simp_all add: minted_def Let_def add_to_index_def set_index_list_def
        get_total_certificates_def get_total_co2e_def)

lemma index_list_minted:
  "index_list (minted env cid r c t) a f =
     (if a = actor_of f r then index_list env a f @ [cid] else index_list env a f)"
  by (cases f)
     (simp_all add: minted_def Let_def add_to_index_def set_index_list_def index_list_def
        actor_of_def)

lemma live_tons_insert:
  fixes m :: "u32 \<rightharpoonup> verification_record"
  assumes "m cid = None"
  shows "(\<Sum>x \<in> dom (m(cid \<mapsto> r)). unat (co2e_tons (the ((m(cid \<mapsto> r)) x))))
       = unat (co2e_tons r) + (\<Sum>x \<in> dom m. unat (co2e_tons (the (m x))))"
proof -
  have nin: "cid \<notin> dom m" using assms by (simp add: domIff)
  have "(\<Sum>x \<in> dom m. unat (co2e_tons (the ((m(cid \<mapsto> r)) x))))
      = (\<Sum>x \<in> dom m. unat (co2e_tons (the (m x))))"
    using nin by (intro sum.cong) auto
  moreover have "finite (dom m)" by simp
  ultimately show ?thesis using nin by (simp add: sum.insert)
qed

lemma live_tons_remove:
  fixes m :: "u32 \<rightharpoonup> verification_record"
  assumes "m cid = Some r"
  shows "(\<Sum>x \<in> dom (m(cid := None)). unat (co2e_tons (the ((m(cid := None)) x))))
           + unat (co2e_tons r)
       = (\<Sum>x \<in> dom m. unat (co2e_tons (the (m x))))"
proof -
  have inn: "cid \<in> dom m" using assms by (simp add: domIff)
  have d: "dom (m(cid := None)) = dom m - {cid}" by simp
  have "(\<Sum>x \<in> dom m - {cid}. unat (co2e_tons (the ((m(cid := None)) x))))
      = (\<Sum>x \<in> dom m - {cid}. unat (co2e_tons (the (m x))))"
    by (intro sum.cong) auto
  moreover have "(\<Sum>x \<in> dom m. unat (co2e_tons (the (m x))))
      = unat (co2e_tons (the (m cid))) + (\<Sum>x \<in> dom m - {cid}. unat (co2e_tons (the (m x))))"
    using inn sum.remove [of "dom m" cid "\<lambda>x. unat (co2e_tons (the (m x)))"] by simp
  ultimately show ?thesis using assms by (simp only: d) simp
qed

lemma minted_owners_ok:
  "owners_ok env \<Longrightarrow> owners_ok (minted env cid r c t)"
  by (simp add: owners_ok_def minted_fields)

lemma minted_counters_ok:
  assumes "counters_ok env" and "certificates env cid = None"
    and "add_u32 (get_total_certificates env) 1 = Some c"
    and "add_u128 (get_total_co2e env) (co2e_tons r) = Some t"
  shows "counters_ok (minted env cid r c t)"
proof -
  have nin: "cid \<notin> dom (certificates env)" using assms(2) by (simp add: domIff)
  have "unat c = card (dom (certificates env)) + 1"
    using add_u32_Some [OF assms(3)] assms(1) by (simp add: counters_ok_def)
  moreover have "unat t = live_tons env + unat (co2e_tons r)"
    using add_u128_Some [OF assms(4)] assms(1) by (simp add: counters_ok_def)
  ultimately show ?thesis
    using nin live_tons_insert [of "certificates env" cid r] assms(2)
    by (simp add: counters_ok_def minted_fields live_tons_def)
qed

lemma minted_index_ok:
  assumes "index_ok env f" and "certificates env cid = None"
  shows "index_ok (minted env cid r c t) f"
proof -
  have fresh: "\<And>a. cid \<notin> set (index_list env a f)"
    using assms by (simp add: index_ok_def)
  have d: "\<And>a. distinct (index_list env a f)" using assms(1) by (simp add: index_ok_def)
  have mem: "\<And>a x. x \<in> set (index_list env a f) \<longleftrightarrow>
           (\<exists>r'. certificates env x = Some r' \<and> actor_of f r' = a)"
    using assms(1) by (simp add: index_ok_def)
  show ?thesis
    unfolding index_ok_def
  proof (intro conjI allI)
    fix a
    show "distinct (index_list (minted env cid r c t) a f)"
      using d fresh by (auto simp: index_list_minted)
  next
    fix a x
    show "x \<in> set (index_list (minted env cid r c t) a f) \<longleftrightarrow>
           (\<exists>r'. certificates (minted env cid r c t) x = Some r' \<and> actor_of f r' = a)"
    proof (cases "x = cid")
      case True
      then show ?thesis using fresh [of a] by (auto simp: index_list_minted minted_fields)
    next
      case False
      then show ?thesis using mem [of x a] by (auto simp: index_list_minted minted_fields)
    qed
  qed
qed

lemma mint_certificate_inv:
  assumes "registry_inv (registry w)" and "mint_certificate au cid r w = (Inr u, w')"
  shows "registry_inv (registry w')"
proof -
  from mint_certificate_Ok [OF assms(2)] obtain c t where
    fresh: "certificates (registry w) cid = None" and
    c: "add_u32 (get_total_certificates (registry w)) 1 = Some c" and
    t: "add_u128 (get_total_co2e (registry w)) (co2e_tons r) = Some t" and
    w': "registry w' = minted (registry w) cid r c t"
    by blast
  show ?thesis
    using assms(1) minted_owners_ok minted_counters_ok [OF _ fresh c t] minted_index_ok [OF _ fresh]
    by (simp add: registry_inv_def w')
qed

lemma burn_certificate_eq:
  "certificates env cid = Some r \<Longrightarrow> certificate_owner env cid = Some owner \<Longrightarrow> owner \<in> au
   \<Longrightarrow> burn_certificate au cid env = (Inr (), burned env cid r)"
  by (simp add: burn_certificate_def burned_def Let_def)

lemma burn_certificate_Ok:
  assumes "burn_certificate au cid env = (Inr u, env')"
  shows "\<exists>r owner. certificates env cid = Some r \<and> certificate_owner env cid = Some owner
           \<and> owner \<in> au \<and> env' = burned env cid r"
proof (cases "certificates env cid")
  case None
  with assms show ?thesis by (simp add: burn_certificate_def)
next
  case (Some r)
  show ?thesis
  proof (cases "certificate_owner env cid")
    case None
    with assms Some show ?thesis by (simp add: burn_certificate_def)
  next
    case owner: (Some owner)
    show ?thesis
    proof (cases "owner \<in> au")
      case True
      with assms Some owner burn_certificate_eq [OF Some owner True] show ?thesis by simp
    next
      case False
      with assms Some owner show ?thesis by (simp add: burn_certificate_def)
    qed
  qed
qed

lemma remove_from_index_fields:
  "certificates (remove_from_index env a c f) = certificates env"
  "certificate_owner (remove_from_index env a c f) = certificate_owner env"
  "total_certificates (remove_from_index env a c f) = total_certificates env"
  "total_co2e (remove_from_index env a c f) = total_co2e env"
  "registry_admin (remove_from_index env a c f) = registry_admin env"
  "token_contract_id (remove_from_index env a c f) = token_contract_id env"
  by (simp_all add: remove_from_index_alt set_index_list_def split: option.splits)

lemma index_list_remove_from_index:
  "index_list (remove_from_index env a c f) b g =
     (if b = a \<and> g = f then pruned (index_list env a f) c else index_list env b g)"
  using index_list_remove_from_index_same [of env a c f]
        index_list_remove_from_index_other [of b a g f env c]
  by (auto simp: pruned_def)

lemma index_list_counters:
  "index_list (decrement_certificate_count env) a f = index_list env a f"
  "index_list (subtract_co2e_from_total env t) a f = index_list env a f"
  "index_list (env\<lparr>certificate_owner := owners, certificates := certs\<rparr>) a f = index_list env a f"
  by (simp_all add: index_list_def decrement_certificate_count_def subtract_co2e_from_total_def
        Let_def)

lemma burned_fields:
  "certificates (burned env cid r) = (certificates env)(cid := None)"
  "certificate_owner (burned env cid r) = (certificate_owner env)(cid := None)"
  "registry_admin (burned env cid r) = registry_admin env"
  "token_contract_id (burned env cid r) = token_contract_id env"
  by (simp_all add: burned_def decrement_certificate_count_def subtract_co2e_from_total_def
        Let_def remove_from_index_fields)

lemma burned_counters:
  "get_total_certificates (burned env cid r) =
     (if get_total_certificates env > 0 then get_total_certificates env - 1
      else get_total_certificates env)"
  "get_total_co2e (burned env cid r) =
     (if get_total_co2e env \<ge> co2e_tons r then get_total_co2e env - co2e_tons r
      else get_total_co2e env)"
  by (simp_all add: burned_def decrement_certificate_count_def subtract_co2e_from_total_def
        Let_def remove_from_index_fields get_total_certificates_def get_total_co2e_def)

lemma index_list_burned:
  "index_list (burned env cid r) a f =
     (if a = actor_of f r then pruned (index_list env a f) cid else index_list env a f)"
  by (cases f)
     (simp_all add: burned_def index_list_counters index_list_remove_from_index actor_of_def)

lemma pruned_distinct:
  assumes "distinct l" and "cid \<in> set l"
  shows "distinct (pruned l cid) \<and> set (pruned l cid) = set l - {cid}"
proof -
  from assms(2) obtain i where i: "find_index l cid = Some i"
    using find_index_None [of l cid] by auto
  then have il: "i < length l" "l ! i = cid" using find_index_Some by blast+
  have "mset (pruned l cid) = mset l - {#cid#}"
    using mset_swap_and_pop [OF il(1)] il(2) i by (simp add: pruned_def)
  then have "mset (cid # pruned l cid) = mset l" using assms(2) by simp
  then have "distinct (cid # pruned l cid)" "set (cid # pruned l cid) = set l"
    using assms(1) mset_eq_imp_distinct_iff mset_eq_setD by blast+
  then show ?thesis by auto
qed

lemma pruned_absent: "cid \<notin> set l \<Longrightarrow> pruned l cid = l"
  using find_index_None [of l cid] by (simp add: pruned_def)

lemma burned_owners_ok: "owners_ok env \<Longrightarrow> owners_ok (burned env cid r)"
  by (simp add: owners_ok_def burned_fields)

lemma burned_counters_ok:
  assumes "counters_ok env" and "certificates env cid = Some r"
  shows "counters_ok (burned env cid r)"
proof -
  have inn: "cid \<in> dom (certificates env)" using assms(2) by (simp add: domIff)
  have fin: "finite (dom (certificates env))" by simp
  have cnt: "unat (get_total_certificates env) = card (dom (certificates env))"
    and tons: "unat (get_total_co2e env) = live_tons env"
    using assms(1) by (simp_all add: counters_ok_def)
  have "card (dom (certificates env)) \<noteq> 0" using inn fin by auto
  then have nz: "get_total_certificates env \<noteq> 0" using cnt by auto
  then have pos: "get_total_certificates env > 0" by (simp add: word_gt_0)
  have c: "unat (get_total_certificates env - 1) = card (dom (certificates env) - {cid})"
    using nz cnt inn fin by (simp add: unat_minus_one)
  have split: "live_tons (burned env cid r) + unat (co2e_tons r) = live_tons env"
    using live_tons_remove [of "certificates env" cid r] assms(2)
    by (simp add: live_tons_def burned_fields)
  then have "unat (co2e_tons r) \<le> unat (get_total_co2e env)" using tons by simp
  then have ge: "co2e_tons r \<le> get_total_co2e env" by (simp add: word_le_nat_alt)
  have t: "unat (get_total_co2e env - co2e_tons r) = live_tons (burned env cid r)"
    using ge split tons by (simp add: unat_sub)
  show ?thesis
    using pos ge c t by (simp add: counters_ok_def burned_counters burned_fields)
qed

lemma burned_index_ok:
  assumes "index_ok env f" and "certificates env cid = Some r"
  shows "index_ok (burned env cid r) f"
proof -
  have d: "\<And>a. distinct (index_list env a f)" using assms(1) by (simp add: index_ok_def)
  have mem: "\<And>a x. x \<in> set (index_list env a f) \<longleftrightarrow>
           (\<exists>r'. certificates env x = Some r' \<and> actor_of f r' = a)"
    using assms(1) by (simp add: index_ok_def)
  have here: "cid \<in> set (index_list env (actor_of f r) f)"
    using mem assms(2) by simp
  have p: "distinct (pruned (index_list env (actor_of f r) f) cid)"
    "set (pruned (index_list env (actor_of f r) f) cid) = set (index_list env (actor_of f r) f) - {cid}"
    using pruned_distinct [OF d here] by simp_all
  have elsewhere: "\<And>a. a \<noteq> actor_of f r \<Longrightarrow> cid \<notin> set (index_list env a f)"
    using mem assms(2) by auto
  show ?thesis
    unfolding index_ok_def
  proof (intro conjI allI)
    fix a
    show "distinct (index_list (burned env cid r) a f)"
      using d p(1) by (simp add: index_list_burned)
  next
    fix a x
    show "x \<in> set (index_list (burned env cid r) a f) \<longleftrightarrow>
           (\<exists>r'. certificates (burned env cid r) x = Some r' \<and> actor_of f r' = a)"
    proof (cases "x = cid")
      case True
      then show ?thesis using p(2) elsewhere [of a]
        by (auto simp: index_list_burned burned_fields)
    next
      case False
      then show ?thesis using p(2) mem [of x a]
        by (auto simp: index_list_burned burned_fields)
    qed
  qed
qed

lemma burn_certificate_inv:
  assumes "registry_inv env" and "burn_certificate au cid env = (Inr u, env')"
  shows "registry_inv env'"
proof -
  from burn_certificate_Ok [OF assms(2)] obtain r where
    r: "certificates env cid = Some r" and env': "env' = burned env cid r" by blast
  show ?thesis
    using assms(1) burned_owners_ok burned_counters_ok [OF _ r] burned_index_ok [OF _ r]
    by (simp add: registry_inv_def env')
qed

lemma registry_inv_config:
  "registry_inv (env\<lparr>registry_admin := a\<rparr>) = registry_inv env"
  "registry_inv (env\<lparr>token_contract_id := t\<rparr>) = registry_inv env"
  by (simp_all add: registry_inv_def owners_ok_def counters_ok_def index_ok_def live_tons_def
        get_total_certificates_def get_total_co2e_def index_list_def)

lemma initialize_inv: "registry_inv env \<Longrightarrow> registry_inv (snd (initialize admin env))"
  by (simp add: initialize_def registry_inv_config)

lemma set_token_contract_id_inv:
  "registry_inv env \<Longrightarrow> registry_inv (snd (set_token_contract_id au admin token_id env))"
  by (simp add: set_token_contract_id_def registry_inv_config split: option.splits)

lemma registry_inv_owner_update:
  assumes "registry_inv env" and "certificate_owner env cid = Some old"
  shows "registry_inv (env\<lparr>certificate_owner := (certificate_owner env)(cid \<mapsto> new)\<rparr>)"
proof -
  have "cid \<in> dom (certificate_owner env)" using assms(2) by (simp add: domIff)
  then have "insert cid (dom (certificate_owner env)) = dom (certificate_owner env)" by auto
  then show ?thesis
    using assms(1)
    by (simp add: registry_inv_def owners_ok_def counters_ok_def index_ok_def live_tons_def
        get_total_certificates_def get_total_co2e_def index_list_def)
qed

lemma transfer_certificate_inv:
  "registry_inv env \<Longrightarrow> registry_inv (snd (transfer_certificate au cid from to env))"
  by (simp add: transfer_certificate_def registry_inv_owner_update split: option.splits)

lemma empty_registry_inv: "registry_inv empty_registry"
  by (simp add: registry_inv_def owners_ok_def counters_ok_def index_ok_def live_tons_def
        get_total_certificates_def get_total_co2e_def index_list_def empty_registry_def)

lemma registry_exec_inv:
  assumes "registry_inv (registry w)" and "registry_exec au c w = (Inr v, w')"
  shows "registry_inv (registry w')"
proof (cases c)
  case (Initialize admin)
  with assms initialize_inv [of "registry w" admin] show ?thesis
    by (auto simp: on_registry_def split: prod.splits)
next
  case (SetTokenContractId admin token_id)
  with assms set_token_contract_id_inv [of "registry w" au admin token_id] show ?thesis
    by (auto simp: on_registry_def split: prod.splits)
next
  case (MintCertificate cid r)
  with assms(2) obtain u where "mint_certificate au cid r w = (Inr u, w')"
    by (cases "mint_certificate au cid r w"; cases "fst (mint_certificate au cid r w)") auto
  with assms(1) show ?thesis by (rule mint_certificate_inv)
next
  case (TransferCertificate cid src dst)
  with assms transfer_certificate_inv [of "registry w" au cid src dst] show ?thesis
    by (auto simp: on_registry_def split: prod.splits)
next
  case (BurnCertificate cid)
  with assms(2) obtain u env' where "burn_certificate au cid (registry w) = (Inr u, env')"
    and "registry w' = env'"
    by (cases "burn_certificate au cid (registry w)";
        cases "fst (burn_certificate au cid (registry w))") (auto simp: on_registry_def)
  with assms(1) show ?thesis using burn_certificate_inv by blast
qed (use assms in auto)

lemma step_inv: "registry_inv (registry w) \<Longrightarrow> registry_inv (registry (step w call))"
proof (cases "registry_exec (fst call) (snd call) w")
  case (Pair res w')
  assume inv: "registry_inv (registry w)"
  show ?thesis
  proof (cases res)
    case (Inl f)
    with Pair inv show ?thesis by (simp add: step_def commit_def)
  next
    case (Inr v)
    with Pair inv registry_exec_inv [of w "fst call" "snd call" v w'] show ?thesis
      by (simp add: step_def commit_def)
  qed
qed

lemma run_inv: "registry_inv (registry w) \<Longrightarrow> registry_inv (registry (run calls w))"
  unfolding run_def by (induction calls arbitrary: w) (simp_all add: step_inv)

lemma reachable_inv: "registry_inv (registry (run calls (initial_world self deployed)))"
  by (rule run_inv) (simp add: initial_world_def empty_registry_inv)

lemma one_minted_registry:
  "registry one_minted =
     \<lparr>certificates = [1 \<mapsto> sample_record], certificate_owner = [1 \<mapsto> ''farmer''],
      farmer_cert_list = [''farmer'' \<mapsto> [1]], verifier_cert_list = [''verifier'' \<mapsto> [1]],
      total_certificates = Some 1, total_co2e = Some 100,
      registry_admin = None, token_contract_id = None\<rparr>"
  by (simp add: one_minted_def run_def step_def commit_def mint_certificate_def Let_def
        initial_world_def empty_registry_def sample_record_def increment_certificate_count_def
        add_co2e_to_total_def add_u32_def add_u128_def add_to_index_def index_list_def
        set_index_list_def)

text \<open>
  Claim C1. In every state reached from the initial (empty) registry by a sequence of
  calls, in particular by successful \<open>mint_certificate\<close> and \<open>burn_certificate\<close> calls, the
  stored \<open>TotalCertificates\<close> equals the number of stored certificate records and the
  stored \<open>TotalCO2e\<close> equals the sum of \<open>co2e_tons\<close> over them. Both are read as
  natural numbers: no decrement ever wraps below zero.
\<close>

theorem counters_match_live_records:
  "unat (get_total_certificates (registry (run calls (initial_world self deployed))))
     = card (dom (certificates (registry (run calls (initial_world self deployed)))))
   \<and> unat (get_total_co2e (registry (run calls (initial_world self deployed))))
     = (\<Sum>cid \<in> dom (certificates (registry (run calls (initial_world self deployed)))).
          unat (co2e_tons (the (certificates (registry (run calls (initial_world self deployed))) cid))))"
  using reachable_inv [of calls self deployed]
  by (simp add: registry_inv_def counters_ok_def live_tons_def)

theorem counters_match_live_records_witness:
  "get_total_certificates (registry one_minted) = 1
   \<and> card (dom (certificates (registry one_minted))) = 1
   \<and> get_total_co2e (registry one_minted) = 100
   \<and> (\<Sum>cid \<in> dom (certificates (registry one_minted)).
          unat (co2e_tons (the (certificates (registry one_minted) cid)))) = 100"
proof -
  have a: "get_total_certificates (registry one_minted) = 1"
          "get_total_co2e (registry one_minted) = 100"
    by (simp_all add: one_minted_registry get_total_certificates_def get_total_co2e_def)
  from counters_match_live_records [of "[({''verifier''}, MintCertificate 1 sample_record)]"
      "''registry''" Map.empty]
  show ?thesis by (simp add: one_minted_def [symmetric] a)
qed

text \<open>
  Claim C2. In every state reached from the initial state by a sequence of the registry's
  public operations, and for every certificate id, \<open>CertificateOwner\<close> has an entry for
  the id if and only if the record store has a record for it.
\<close>

theorem owner_iff_record:
  "certificate_owner (registry (run calls (initial_world self deployed))) cid \<noteq> None
   \<longleftrightarrow> certificates (registry (run calls (initial_world self deployed))) cid \<noteq> None"
proof -
  have "dom (certificate_owner (registry (run calls (initial_world self deployed))))
      = dom (certificates (registry (run calls (initial_world self deployed))))"
    using reachable_inv [of calls self deployed] by (simp add: registry_inv_def owners_ok_def)
  then show ?thesis by (metis domIff)
qed

theorem owner_iff_record_witness:
  "certificates (registry one_minted) 1 \<noteq> None
   \<and> certificate_owner (registry one_minted) 1 \<noteq> None
   \<and> certificates (registry one_minted) 2 = None
   \<and> certificate_owner (registry one_minted) 2 = None"
proof -
  have a: "certificates (registry one_minted) 1 \<noteq> None" "certificates (registry one_minted) 2 = None"
    by (simp_all add: one_minted_registry)
  from owner_iff_record [of "[({''verifier''}, MintCertificate 1 sample_record)]"
      "''registry''" Map.empty 1]
    owner_iff_record [of "[({''verifier''}, MintCertificate 1 sample_record)]"
      "''registry''" Map.empty 2] a
  show ?thesis by (simp add: one_minted_def [symmetric])
qed

text \<open>
  Claim C3. In every reachable state in which certificate \<open>cid\<close> exists, a
  \<open>burn_certificate(cid)\<close> authorized by the current owner succeeds, and afterwards
  \<open>get_certificate_data(cid)\<close> and \<open>get_certificate_owner(cid)\<close> both fail with
  \<open>NotFound\<close> and the id is in neither the farmer's nor the verifier's index list.
\<close>

theorem burn_removes_certificate:
  assumes "get_certificate_data (registry (run calls (initial_world self deployed))) cid = Inr r"
    and "get_certificate_owner (registry (run calls (initial_world self deployed))) cid = Inr owner"
    and "owner \<in> au"
  shows "fst (burn_certificate au cid (registry (run calls (initial_world self deployed)))) = Inr ()
    \<and> get_certificate_data
         (snd (burn_certificate au cid (registry (run calls (initial_world self deployed))))) cid
       = Inl (Err NotFound)
    \<and> get_certificate_owner
         (snd (burn_certificate au cid (registry (run calls (initial_world self deployed))))) cid
       = Inl (Err NotFound)
    \<and> cid \<notin> set (index_list
         (snd (burn_certificate au cid (registry (run calls (initial_world self deployed)))))
         (farmer_address r) True)
    \<and> cid \<notin> set (index_list
         (snd (burn_certificate au cid (registry (run calls (initial_world self deployed)))))
         (verifier_address r) False)"
proof -
  define env where "env = registry (run calls (initial_world self deployed))"
  have inv: "registry_inv env" unfolding env_def by (rule reachable_inv)
  have r: "certificates env cid = Some r"
    using assms(1) by (simp add: env_def get_certificate_data_def split: option.splits)
  have o: "certificate_owner env cid = Some owner"
    using assms(2) by (simp add: env_def get_certificate_owner_def split: option.splits if_splits)
  have b: "burn_certificate au cid env = (Inr (), burned env cid r)"
    using r o assms(3) by (rule burn_certificate_eq)
  have gone: "certificates (burned env cid r) cid = None" by (simp add: burned_fields)
  have "index_ok (burned env cid r) True" "index_ok (burned env cid r) False"
    using inv burned_index_ok [OF _ r] by (simp_all add: registry_inv_def)
  then have "\<And>a. cid \<notin> set (index_list (burned env cid r) a True)"
    "\<And>a. cid \<notin> set (index_list (burned env cid r) a False)"
    using gone by (simp_all add: index_ok_def)
  then show ?thesis
    using gone by (simp add: env_def [symmetric] b get_certificate_data_def get_certificate_owner_def)
qed

theorem burn_removes_certificate_witness:
  "get_certificate_data (registry one_minted) 1 = Inr sample_record
   \<and> get_certificate_owner (registry one_minted) 1 = Inr ''farmer''
   \<and> ''farmer'' \<in> {''farmer''}
   \<and> fst (burn_certificate {''farmer''} 1 (registry one_minted)) = Inr ()
   \<and> get_certificate_data (snd (burn_certificate {''farmer''} 1 (registry one_minted))) 1
       = Inl (Err NotFound)
   \<and> get_certificate_owner (snd (burn_certificate {''farmer''} 1 (registry one_minted))) 1
       = Inl (Err NotFound)
   \<and> 1 \<notin> set (index_list (snd (burn_certificate {''farmer''} 1 (registry one_minted)))
                 ''farmer'' True)
   \<and> 1 \<notin> set (index_list (snd (burn_certificate {''farmer''} 1 (registry one_minted)))
                 ''verifier'' False)"
proof -
  have h: "get_certificate_data (registry one_minted) 1 = Inr sample_record"
          "get_certificate_owner (registry one_minted) 1 = Inr ''farmer''"
          "''farmer'' \<in> {''farmer''}"
    by (simp_all add: one_minted_registry get_certificate_data_def get_certificate_owner_def)
  have s: "farmer_address sample_record = ''farmer''" "verifier_address sample_record = ''verifier''"
    by (simp_all add: sample_record_def)
  from burn_removes_certificate [of "[({''verifier''}, MintCertificate 1 sample_record)]"
      "''registry''" Map.empty 1 sample_record "''farmer''" "{''farmer''}"] h
  show ?thesis by (simp add: one_minted_def [symmetric] s)
qed

section \<open>The nested mint\<close>

lemma invoke_mint_registry_update:
  "fst (invoke_mint au t to amount (w\<lparr>registry := e\<rparr>)) = fst (invoke_mint au t to amount w)"
  "ledgers (snd (invoke_mint au t to amount (w\<lparr>registry := e\<rparr>)))
     = ledgers (snd (invoke_mint au t to amount w))"
  by (simp_all add: invoke_mint_def split: option.splits prod.splits)

lemma mint_failure_unchanged: "fst (mint au to amount env) = Inl f \<Longrightarrow> snd (mint au to amount env) = env"
  by (auto simp: mint_def Let_def split: sum.splits if_splits option.splits)

lemma invoke_mint_failure:
  assumes "fst (invoke_mint au t to amount w) = Inl f"
  shows "snd (invoke_mint au t to amount w) = w"
proof (cases "ledgers w t")
  case None
  then show ?thesis by (simp add: invoke_mint_def)
next
  case (Some ledger)
  obtain res ledger' where m: "mint (insert (registry_address w) au) to amount ledger = (res, ledger')"
    by (cases "mint (insert (registry_address w) au) to amount ledger")
  with assms Some have "res = Inl f" by (simp add: invoke_mint_def)
  with m mint_failure_unchanged [of "insert (registry_address w) au" to amount ledger f]
  have "ledger' = ledger" by simp
  with Some m show ?thesis by (simp add: invoke_mint_def map_upd_triv)
qed

lemma mint_certificate_eq:
  assumes "verifier_address r \<in> au" and "hectares_not_burned r \<noteq> 0" and "co2e_tons r \<noteq> 0"
    and "certificates (registry w) cid = None"
    and "add_u32 (get_total_certificates (registry w)) 1 = Some c"
    and "add_u128 (get_total_co2e (registry w)) (co2e_tons r) = Some t"
  shows "mint_certificate au cid r w =
     (Inr (),
      case token_contract_id (registry w) of
        None \<Rightarrow> w\<lparr>registry := minted (registry w) cid r c t\<rparr>
      | Some token \<Rightarrow>
          snd (invoke_mint au token (farmer_address r) (co2e_tons r)
                 (w\<lparr>registry := minted (registry w) cid r c t\<rparr>)))"
  using assms
  unfolding mint_certificate_def Let_def increment_certificate_count_def add_co2e_to_total_def
  by (simp add: get_total_certificates_def get_total_co2e_def minted_def Let_def
        add_to_index_fields split: option.splits)

text \<open>
  Claim C4. When a \<open>TokenContractId\<close> is configured and the nested \<open>mint\<close> call into the
  token ledger fails, a \<open>mint_certificate\<close> whose own checks pass still returns success,
  and the record, the owner entry, both counters and both index entries of the new
  certificate are stored; no ledger has changed.
\<close>

theorem nested_mint_failure_keeps_certificate:
  assumes "verifier_address r \<in> au" and "hectares_not_burned r \<noteq> 0" and "co2e_tons r \<noteq> 0"
    and "certificates (registry w) cid = None"
    and "unat (get_total_certificates (registry w)) + 1 < 2 ^ 32"
    and "unat (get_total_co2e (registry w)) + unat (co2e_tons r) < 2 ^ 128"
    and "token_contract_id (registry w) = Some token"
    and "fst (invoke_mint au token (farmer_address r) (co2e_tons r) w) = Inl f"
  shows "fst (mint_certificate au cid r w) = Inr ()
    \<and> get_certificate_data (registry (snd (mint_certificate au cid r w))) cid = Inr r
    \<and> get_certificate_owner (registry (snd (mint_certificate au cid r w))) cid
        = Inr (farmer_address r)
    \<and> unat (get_total_certificates (registry (snd (mint_certificate au cid r w))))
        = unat (get_total_certificates (registry w)) + 1
    \<and> unat (get_total_co2e (registry (snd (mint_certificate au cid r w))))
        = unat (get_total_co2e (registry w)) + unat (co2e_tons r)
    \<and> cid \<in> set (index_list (registry (snd (mint_certificate au cid r w))) (farmer_address r) True)
    \<and> cid \<in> set (index_list (registry (snd (mint_certificate au cid r w))) (verifier_address r) False)
    \<and> ledgers (snd (mint_certificate au cid r w)) = ledgers w"
proof -
  define c where "c = get_total_certificates (registry w) + 1"
  define t where "t = get_total_co2e (registry w) + co2e_tons r"
  have c: "add_u32 (get_total_certificates (registry w)) 1 = Some c"
    using assms(5) by (simp add: add_u32_def c_def)
  have t: "add_u128 (get_total_co2e (registry w)) (co2e_tons r) = Some t"
    using assms(6) by (simp add: add_u128_def t_def)
  define w1 where "w1 = w\<lparr>registry := minted (registry w) cid r c t\<rparr>"
  have "fst (invoke_mint au token (farmer_address r) (co2e_tons r) w1) = Inl f"
    using assms(8) by (simp add: w1_def invoke_mint_registry_update)
  then have "snd (invoke_mint au token (farmer_address r) (co2e_tons r) w1) = w1"
    by (rule invoke_mint_failure)
  then have m: "mint_certificate au cid r w = (Inr (), w1)"
    using mint_certificate_eq [OF assms(1-4) c t] assms(7) by (simp add: w1_def)
  have reg: "registry w1 = minted (registry w) cid r c t" and led: "ledgers w1 = ledgers w"
    by (simp_all add: w1_def)
  show ?thesis
    using add_u32_Some [OF c] add_u128_Some [OF t]
    by (simp add: m reg led get_certificate_data_def get_certificate_owner_def minted_fields
          index_list_minted actor_of_def)
qed

theorem nested_mint_failure_keeps_certificate_witness:
  "fst (invoke_mint {''verifier''} ''token'' ''farmer'' 100 unconfigured_token_world)
     = Inl (Err NotInitialized)
   \<and> fst (mint_certificate {''verifier''} 1 sample_record unconfigured_token_world) = Inr ()
   \<and> get_certificate_data
        (registry (snd (mint_certificate {''verifier''} 1 sample_record unconfigured_token_world))) 1
       = Inr sample_record
   \<and> get_certificate_owner
        (registry (snd (mint_certificate {''verifier''} 1 sample_record unconfigured_token_world))) 1
       = Inr ''farmer''
   \<and> unat (get_total_certificates
        (registry (snd (mint_certificate {''verifier''} 1 sample_record unconfigured_token_world))))
       = 1
   \<and> unat (get_total_co2e
        (registry (snd (mint_certificate {''verifier''} 1 sample_record unconfigured_token_world))))
       = 100
   \<and> ledgers (snd (mint_certificate {''verifier''} 1 sample_record unconfigured_token_world))
       = [''token'' \<mapsto> empty_ledger]"
proof -
  have s: "verifier_address sample_record = ''verifier''" "farmer_address sample_record = ''farmer''"
    "hectares_not_burned sample_record = 10" "co2e_tons sample_record = 100"
    by (simp_all add: sample_record_def)
  have reg: "certificates (registry unconfigured_token_world) 1 = None"
    "get_total_certificates (registry unconfigured_token_world) = 0"
    "get_total_co2e (registry unconfigured_token_world) = 0"
    "token_contract_id (registry unconfigured_token_world) = Some ''token''"
    "ledgers unconfigured_token_world = [''token'' \<mapsto> empty_ledger]"
    by (simp_all add: unconfigured_token_world_def empty_registry_def get_total_certificates_def
          get_total_co2e_def)
  have n: "fst (invoke_mint {''verifier''} ''token'' ''farmer'' 100 unconfigured_token_world)
     = Inl (Err NotInitialized)"
    by (simp add: invoke_mint_def unconfigured_token_world_def mint_def require_admin_def
          empty_ledger_def)
  from nested_mint_failure_keeps_certificate [of sample_record "{''verifier''}"
      unconfigured_token_world 1 "''token''" "Err NotInitialized"] n
  show ?thesis by (simp add: s reg)
qed

section \<open>Failures before the first write\<close>

lemma on_registry_failed:
  assumes "\<And>f. fst (op (registry w)) = Inl f \<Longrightarrow> snd (op (registry w)) = registry w"
    and "fst (on_registry op w) = Inl f"
  shows "snd (on_registry op w) = w"
proof (cases "op (registry w)")
  case (Pair res env')
  with assms(2) have "res = Inl f" by (cases res) (simp_all add: on_registry_def)
  with assms(1) [of f] Pair have "env' = registry w" by simp
  with Pair show ?thesis by (simp add: on_registry_def)
qed

lemma initialize_failed:
  "fst (initialize admin env) = Inl f \<Longrightarrow> snd (initialize admin env) = env"
  by (simp add: initialize_def split: if_splits)

lemma set_token_contract_id_failed:
  "fst (set_token_contract_id au admin token_id env) = Inl f
   \<Longrightarrow> snd (set_token_contract_id au admin token_id env) = env"
  by (simp add: set_token_contract_id_def split: if_splits option.splits)

lemma transfer_certificate_failed:
  "fst (transfer_certificate au cid src dst env) = Inl f
   \<Longrightarrow> snd (transfer_certificate au cid src dst env) = env"
  by (simp add: transfer_certificate_def split: if_splits option.splits)

lemma burn_certificate_failed:
  "fst (burn_certificate au cid env) = Inl f \<Longrightarrow> snd (burn_certificate au cid env) = env"
  by (simp add: burn_certificate_def Let_def split: if_splits option.splits)

lemma mint_certificate_failed:
  assumes "fst (mint_certificate au cid r w) = Inl f" and "f \<noteq> Panic ArithOverflow"
  shows "snd (mint_certificate au cid r w) = w"
  using assms unfolding mint_certificate_def Let_def
  by (simp split: if_splits option.splits)

lemma token_initialize_failed:
  "fst (token_initialize admin env) = Inl f \<Longrightarrow> snd (token_initialize admin env) = env"
  by (simp add: token_initialize_def split: if_splits)

lemma approve_failed:
  "fst (approve au owner spender amount env) = Inl f
   \<Longrightarrow> snd (approve au owner spender amount env) = env"
  by (simp add: approve_def split: if_splits)

lemma transfer_failed:
  assumes "fst (transfer au src dst amount env) = Inl f" and "f \<noteq> Panic ArithOverflow"
  shows "snd (transfer au src dst amount env) = env"
  using assms unfolding transfer_def Let_def
  by (simp split: if_splits option.splits)

lemma transfer_from_failed:
  assumes "fst (transfer_from au spender src dst amount env) = Inl f" and "f \<noteq> Panic ArithOverflow"
  shows "snd (transfer_from au spender src dst amount env) = env"
  using assms unfolding transfer_from_def Let_def
  by (simp split: if_splits option.splits)

lemma registry_exec_failed:
  assumes "fst (registry_exec au c w) = Inl f" and "f \<noteq> Panic ArithOverflow"
  shows "snd (registry_exec au c w) = w"
proof (cases c)
  case (Initialize admin)
  with assms(1) show ?thesis
    using on_registry_failed [of "initialize admin" w f] initialize_failed by simp
next
  case (SetTokenContractId admin token_id)
  with assms(1) show ?thesis
    using on_registry_failed [of "set_token_contract_id au admin token_id" w f]
      set_token_contract_id_failed by simp
next
  case (MintCertificate cid r)
  obtain res w' where m: "mint_certificate au cid r w = (res, w')"
    by (cases "mint_certificate au cid r w")
  with assms(1) MintCertificate have "res = Inl f" by (cases res) simp_all
  with m mint_certificate_failed [of au cid r w f] assms(2) have "w' = w" by simp
  with m MintCertificate show ?thesis by simp
next
  case (TransferCertificate cid src dst)
  with assms(1) show ?thesis
    using on_registry_failed [of "transfer_certificate au cid src dst" w f]
      transfer_certificate_failed by simp
next
  case (BurnCertificate cid)
  with assms(1) show ?thesis
    using on_registry_failed [of "burn_certificate au cid" w f] burn_certificate_failed by simp
qed simp_all

lemma token_exec_failed:
  assumes "fst (token_exec au c env) = Inl f" and "f \<noteq> Panic ArithOverflow"
  shows "snd (token_exec au c env) = env"
proof (cases c)
  case (TokenInitialize admin)
  obtain res env' where m: "token_initialize admin env = (res, env')"
    by (cases "token_initialize admin env")
  with assms(1) TokenInitialize have "res = Inl f" by (cases res) simp_all
  with m token_initialize_failed [of admin env f] TokenInitialize show ?thesis by simp
next
  case (Mint dst amount)
  obtain res env' where m: "mint au dst amount env = (res, env')"
    by (cases "mint au dst amount env")
  with assms(1) Mint have "res = Inl f" by (cases res) simp_all
  with m mint_failure_unchanged [of au dst amount env f] Mint show ?thesis by simp
next
  case (Transfer src dst amount)
  obtain res env' where m: "transfer au src dst amount env = (res, env')"
    by (cases "transfer au src dst amount env")
  with assms(1) Transfer have "res = Inl f" by (cases res) simp_all
  with m transfer_failed [of au src dst amount env f] assms(2) Transfer show ?thesis by simp
next
  case (Approve owner spender amount)
  obtain res env' where m: "approve au owner spender amount env = (res, env')"
    by (cases "approve au owner spender amount env")
  with assms(1) Approve have "res = Inl f" by (cases res) simp_all
  with m approve_failed [of au owner spender amount env f] Approve show ?thesis by simp
next
  case (TransferFrom spender src dst amount)
  obtain res env' where m: "transfer_from au spender src dst amount env = (res, env')"
    by (cases "transfer_from au spender src dst amount env")
  with assms(1) TransferFrom have "res = Inl f" by (cases res) simp_all
  with m transfer_from_failed [of au spender src dst amount env f] assms(2) TransferFrom
  show ?thesis by simp
qed simp_all

text \<open>
  Claim C5. For every public entry point of the certificate registry and of the token
  ledger: if the call returns an error, or is refused for lack of authorization, the
  storage the code has written when it returns is exactly the storage before the call --
  records, owner mapping, index lists, counters, balances, allowances and config. Every
  such failure is decided before the first write. (The nested mint inside
  \<open>mint_certificate\<close> never makes it fail. An arithmetic overflow is an abort, not a returned
  error; the host discards its writes, which is what \<open>commit\<close> models.)
\<close>

theorem failed_call_leaves_state:
  "(fst (registry_exec au c w) = Inl f \<and> f \<noteq> Panic ArithOverflow
      \<longrightarrow> snd (registry_exec au c w) = w)
   \<and> (fst (token_exec au' c' env) = Inl f' \<and> f' \<noteq> Panic ArithOverflow
      \<longrightarrow> snd (token_exec au' c' env) = env)"
  using registry_exec_failed [of au c w f] token_exec_failed [of au' c' env f'] by blast

theorem failed_call_leaves_state_witness:
  "fst (registry_exec {''verifier''} (MintCertificate 1 sample_record) one_minted)
     = Inl (Err AlreadyExists)
   \<and> snd (registry_exec {''verifier''} (MintCertificate 1 sample_record) one_minted) = one_minted
   \<and> fst (token_exec {''bob''} (TransferFrom ''bob'' ''alice'' ''charlie'' 400) alice_300)
     = Inl (Err InsufficientAllowance)
   \<and> snd (token_exec {''bob''} (TransferFrom ''bob'' ''alice'' ''charlie'' 400) alice_300)
     = alice_300"
proof -
  have a: "fst (registry_exec {''verifier''} (MintCertificate 1 sample_record) one_minted)
     = Inl (Err AlreadyExists)"
    by (simp add: mint_certificate_def one_minted_registry sample_record_def)
  have b: "fst (token_exec {''bob''} (TransferFrom ''bob'' ''alice'' ''charlie'' 400) alice_300)
     = Inl (Err InsufficientAllowance)"
    by (simp add: transfer_from_def alice_300_def get_balance_def allowance_def)
  from failed_call_leaves_state [of "{''verifier''}" "MintCertificate 1 sample_record" one_minted
      "Err AlreadyExists" "{''bob''}" "TransferFrom ''bob'' ''alice'' ''charlie'' 400" alice_300
      "Err InsufficientAllowance"] a b
  show ?thesis by simp
qed

section \<open>Pagination\<close>

lemma two_minted_registry:
  "registry two_minted =
     \<lparr>certificates = [1 \<mapsto> sample_record, 2 \<mapsto> sample_record],
      certificate_owner = [1 \<mapsto> ''farmer'', 2 \<mapsto> ''farmer''],
      farmer_cert_list = [''farmer'' \<mapsto> [1, 2]], verifier_cert_list = [''verifier'' \<mapsto> [1, 2]],
      total_certificates = Some 2, total_co2e = Some 200,
      registry_admin = None, token_contract_id = None\<rparr>"
  by (simp add: two_minted_def run_def step_def commit_def mint_certificate_def Let_def
        initial_world_def empty_registry_def sample_record_def increment_certificate_count_def
        add_co2e_to_total_def add_u32_def add_u128_def add_to_index_def index_list_def
        set_index_list_def)

text \<open>
  Where \<open>offset + limit\<close> fits in a \<open>u32\<close>, the helper returns the slice the
  specification describes: the elements from \<open>offset\<close> up to \<open>min(offset + limit, N)\<close>,
  with total \<open>N\<close>.
\<close>

lemma paginate_cert_list_in_range:
  assumes "length all_certs < 2 ^ 32" and "unat offset + unat limit < 2 ^ 32"
  shows "paginate_cert_list all_certs offset limit
           = Inr (take (unat limit) (drop (unat offset) all_certs), of_nat (length all_certs))"
proof -
  define total where "total = (of_nat (length all_certs) :: u32)"
  have ut: "unat total = length all_certs"
    using assms(1) by (simp add: total_def unat_of_nat)
  show ?thesis
  proof (cases "offset \<ge> total")
    case True
    then have "length all_certs \<le> unat offset" using ut by (simp add: word_le_nat_alt)
    with True show ?thesis by (simp add: paginate_cert_list_def total_def [symmetric])
  next
    case False
    then have lt: "unat offset < length all_certs" using ut by (simp add: word_le_nat_alt)
    have s: "add_u32 offset limit = Some (offset + limit)"
      using assms(2) by (simp add: add_u32_def)
    have us: "unat (offset + limit) = unat offset + unat limit"
      using add_u32_Some [OF s] .
    define e where "e = min (offset + limit) total"
    have ue: "unat e = min (unat offset + unat limit) (length all_certs)"
      unfolding e_def min_def using us ut by (simp add: word_le_nat_alt)
    have "map (\<lambda>i. all_certs ! i) [unat offset ..< unat e]
            = take (unat limit) (drop (unat offset) all_certs)"
    proof (rule nth_equalityI)
      show "length (map ((!) all_certs) [unat offset ..< unat e])
              = length (take (unat limit) (drop (unat offset) all_certs))"
        using lt by (auto simp add: ue min_def)
    next
      fix i assume "i < length (map ((!) all_certs) [unat offset ..< unat e])"
      then have i: "i < unat e - unat offset" by simp
      then have "unat offset + i < length all_certs" "i < unat limit"
        using ue by simp_all
      then show "map ((!) all_certs) [unat offset ..< unat e] ! i
                   = take (unat limit) (drop (unat offset) all_certs) ! i"
        using i by simp
    qed
    with False s show ?thesis
      by (simp add: paginate_cert_list_def total_def [symmetric] e_def [symmetric] Let_def)
  qed
qed

text \<open>
  Claim C6 says this for every offset and limit. The code adds \<open>offset + limit\<close> before it
  takes the minimum with the total, so with two ids, offset 1 and limit \<open>2^32 - 1\<close> the
  addition overflows and the call aborts, where the claim promises the page \<open>[2]\<close> and
  total 2. The same happens through \<open>list_certificates_by_verifier\<close> on a registry
  holding two certificates of one verifier.
\<close>

theorem paginate_cert_list_overflow:
  "paginate_cert_list [1, 2] 1 4294967295 = Inl ArithOverflow
   \<and> list_certificates_by_verifier (registry two_minted) ''verifier'' 1 4294967295
       = Inl ArithOverflow"
  by (simp add: paginate_cert_list_def add_u32_def list_certificates_by_verifier_def
        index_list_def two_minted_registry word_le_nat_alt)

section \<open>Sorting\<close>

lemma should_swap_iff: "should_swap d a b \<longleftrightarrow> \<not> may_precede d a b"
  by (auto simp: should_swap_def may_precede_def)

lemma may_precede_total: "may_precede d a b \<or> may_precede d b a"
  by (auto simp: may_precede_def)

lemma may_precede_trans: "may_precede d a b \<Longrightarrow> may_precede d b c \<Longrightarrow> may_precede d a c"
  by (auto simp: may_precede_def)

lemma may_precede_refl: "may_precede d a a"
  by (simp add: may_precede_def)

lemma length_bubble_step: "length (bubble_step d ps j) = length ps"
  by (simp add: bubble_step_def Let_def)

lemma mset_bubble_step: "j + 1 < length ps \<Longrightarrow> mset (bubble_step d ps j) = mset ps"
  using mset_swap [of "j + 1" ps j] by (simp add: bubble_step_def Let_def)

lemma nth_bubble_step:
  "j + 1 < length ps \<Longrightarrow>
   bubble_step d ps j ! k =
     (if should_swap d (ps ! j) (ps ! (j + 1))
      then (if k = j then ps ! (j + 1) else if k = j + 1 then ps ! j else ps ! k)
      else ps ! k)"
  by (auto simp: bubble_step_def Let_def nth_list_update)

lemma pass_props:
  assumes "m < length ps"
  shows "length (foldl (bubble_step d) ps [0 ..< m]) = length ps
    \<and> mset (foldl (bubble_step d) ps [0 ..< m]) = mset ps
    \<and> (\<forall>k. m < k \<longrightarrow> foldl (bubble_step d) ps [0 ..< m] ! k = ps ! k)
    \<and> (\<forall>k \<le> m. may_precede d (foldl (bubble_step d) ps [0 ..< m] ! k)
                              (foldl (bubble_step d) ps [0 ..< m] ! m))
    \<and> (\<forall>k \<le> m. \<exists>k' \<le> m. foldl (bubble_step d) ps [0 ..< m] ! k = ps ! k')"
  using assms
proof (induction m)
  case 0
  then show ?case by (auto simp: may_precede_refl)
next
  case (Suc m)
  define res where "res = foldl (bubble_step d) ps [0 ..< m]"
  have m: "m < length ps" using Suc.prems by simp
  have len: "length res = length ps" and ms: "mset res = mset ps"
    and rest: "\<And>k. m < k \<Longrightarrow> res ! k = ps ! k"
    and top: "\<And>k. k \<le> m \<Longrightarrow> may_precede d (res ! k) (res ! m)"
    and src: "\<And>k. k \<le> m \<Longrightarrow> \<exists>k' \<le> m. res ! k = ps ! k'"
    using Suc.IH [OF m] unfolding res_def by blast+
  have inr: "m + 1 < length res" using Suc.prems len by simp
  define res' where "res' = bubble_step d res m"
  have eq: "foldl (bubble_step d) ps [0 ..< Suc m] = res'"
    unfolding res'_def res_def by simp
  have nth: "\<And>k. res' ! k =
     (if should_swap d (res ! m) (res ! (m + 1))
      then (if k = m then res ! (m + 1) else if k = m + 1 then res ! m else res ! k)
      else res ! k)"
    unfolding res'_def using nth_bubble_step [OF inr] by blast
  have 1: "length res' = length ps" unfolding res'_def by (simp add: length_bubble_step len)
  have 2: "mset res' = mset ps" unfolding res'_def using mset_bubble_step [OF inr] ms by simp
  have 3: "\<forall>k. Suc m < k \<longrightarrow> res' ! k = ps ! k"
    using rest by (simp add: nth)
  have 4: "\<forall>k \<le> Suc m. may_precede d (res' ! k) (res' ! Suc m)"
  proof (intro allI impI)
    fix k assume k: "k \<le> Suc m"
    show "may_precede d (res' ! k) (res' ! Suc m)"
    proof (cases "should_swap d (res ! m) (res ! (m + 1))")
      case True
      then have bw: "may_precede d (res ! (m + 1)) (res ! m)"
        using may_precede_total [of d "res ! m" "res ! (m + 1)"] by (simp add: should_swap_iff)
      show ?thesis
        using True k bw top [of k] by (auto simp: nth may_precede_refl le_Suc_eq)
    next
      case False
      then have fw: "may_precede d (res ! m) (res ! (m + 1))" by (simp add: should_swap_iff)
      show ?thesis
      proof (cases "k = Suc m")
        case True
        then show ?thesis by (simp add: may_precede_refl)
      next
        case ne: False
        with k have "k \<le> m" by simp
        from top [OF this] fw have "may_precede d (res ! k) (res ! (m + 1))"
          by (rule may_precede_trans)
        with False show ?thesis by (simp add: nth)
      qed
    qed
  qed
  have 5: "\<forall>k \<le> Suc m. \<exists>k' \<le> Suc m. res' ! k = ps ! k'"
  proof (intro allI impI)
    fix k assume k: "k \<le> Suc m"
    have a: "\<exists>k' \<le> Suc m. res ! Suc m = ps ! k'" using rest [of "Suc m"] by auto
    have b: "\<And>j. j \<le> m \<Longrightarrow> \<exists>k' \<le> Suc m. res ! j = ps ! k'"
      using src le_SucI by blast
    have c: "\<And>j. j \<le> Suc m \<Longrightarrow> \<exists>k' \<le> Suc m. res ! j = ps ! k'"
      using a b le_Suc_eq by metis
    show "\<exists>k' \<le> Suc m. res' ! k = ps ! k'"
      using c [of k] c [of m] c [of "Suc m"] k by (auto simp: nth)
  qed
  show ?case unfolding eq using 1 2 3 4 5 by blast
qed

lemma ucast_id_inj: "(ucast (a :: u32) :: u128) = ucast b \<Longrightarrow> a = b"
proof -
  assume e: "(ucast a :: u128) = ucast b"
  have up: "is_up (ucast :: u32 \<Rightarrow> u128)" by (simp add: is_up)
  have "uint a = uint (ucast a :: u128)" using uint_up_ucast [OF up] by simp
  also have "\<dots> = uint (ucast b :: u128)" using e by simp
  also have "\<dots> = uint b" using uint_up_ucast [OF up] by simp
  finally show "a = b" by (rule word_uint_eqI)
qed

lemma fst_key_pairs: "p \<in> set (key_pairs env ids sort_by) \<Longrightarrow> fst p \<in> set ids"
  by (induction ids) (auto split: option.splits)

lemma snd_key_pairs_id:
  "p \<in> set (key_pairs env ids CertificateId) \<Longrightarrow> snd p = ucast (fst p)"
  by (induction ids) (auto simp: sort_value_def split: option.splits)

lemma key_pairs_certificate_id:
  "distinct ids \<Longrightarrow> distinct (map snd (key_pairs env ids CertificateId))"
proof (induction ids)
  case Nil
  then show ?case by simp
next
  case (Cons c ids)
  have fresh: "ucast c \<notin> snd ` set (key_pairs env ids CertificateId)"
  proof
    assume "ucast c \<in> snd ` set (key_pairs env ids CertificateId)"
    then obtain p where p: "p \<in> set (key_pairs env ids CertificateId)" and e: "ucast c = snd p"
      by blast
    from snd_key_pairs_id [OF p] e have "fst p = c" using ucast_id_inj by simp
    moreover have "fst p \<in> set ids" using fst_key_pairs [OF p] .
    ultimately show False using Cons.prems by simp
  qed
  show ?case
  proof (cases "certificates env c")
    case None
    with Cons show ?thesis by simp
  next
    case (Some r)
    with Cons fresh show ?thesis by (simp add: sort_value_def)
  qed
qed

lemma outer_props:
  assumes "n \<le> length ps"
  shows "length (foldl (\<lambda>qs i. foldl (bubble_step d) qs [0 ..< length ps - i - 1]) ps [0 ..< n])
           = length ps
    \<and> mset (foldl (\<lambda>qs i. foldl (bubble_step d) qs [0 ..< length ps - i - 1]) ps [0 ..< n])
           = mset ps
    \<and> (\<forall>k l. k \<le> l \<and> l < length ps \<and> length ps - n \<le> l \<longrightarrow>
          may_precede d
            (foldl (\<lambda>qs i. foldl (bubble_step d) qs [0 ..< length ps - i - 1]) ps [0 ..< n] ! k)
            (foldl (\<lambda>qs i. foldl (bubble_step d) qs [0 ..< length ps - i - 1]) ps [0 ..< n] ! l))"
  using assms
proof (induction n)
  case 0
  then show ?case by auto
next
  case (Suc n)
  define res where
    "res = foldl (\<lambda>qs i. foldl (bubble_step d) qs [0 ..< length ps - i - 1]) ps [0 ..< n]"
  define m where "m = length ps - n - 1"
  have n: "n < length ps" using Suc.prems by simp
  have len: "length res = length ps" and ms: "mset res = mset ps"
    and srt: "\<And>k l. k \<le> l \<Longrightarrow> l < length ps \<Longrightarrow> length ps - n \<le> l
                 \<Longrightarrow> may_precede d (res ! k) (res ! l)"
    using Suc.IH n unfolding res_def by simp_all
  have m: "m < length res" "length ps - n = Suc m" "length ps - Suc n = m"
    using n len by (simp_all add: m_def)
  define res' where "res' = foldl (bubble_step d) res [0 ..< m]"
  have eq: "foldl (\<lambda>qs i. foldl (bubble_step d) qs [0 ..< length ps - i - 1]) ps [0 ..< Suc n] = res'"
    unfolding res'_def res_def m_def by simp
  have len': "length res' = length res" and ms': "mset res' = mset res"
    and rest: "\<And>k. m < k \<Longrightarrow> res' ! k = res ! k"
    and top: "\<And>k. k \<le> m \<Longrightarrow> may_precede d (res' ! k) (res' ! m)"
    and src: "\<And>k. k \<le> m \<Longrightarrow> \<exists>k' \<le> m. res' ! k = res ! k'"
    using pass_props [OF m(1), of d] unfolding res'_def by blast+
  have "\<forall>k l. k \<le> l \<and> l < length ps \<and> length ps - Suc n \<le> l
          \<longrightarrow> may_precede d (res' ! k) (res' ! l)"
  proof (intro allI impI)
    fix k l assume a: "k \<le> l \<and> l < length ps \<and> length ps - Suc n \<le> l"
    then have kl: "k \<le> l" and l: "l < length ps" and ml: "m \<le> l" using m(3) by simp_all
    show "may_precede d (res' ! k) (res' ! l)"
    proof (cases "l = m")
      case True
      with kl top show ?thesis by simp
    next
      case False
      with ml have lm: "m < l" by simp
      then have region: "length ps - n \<le> l" using m(2) by simp
      show ?thesis
      proof (cases "k \<le> m")
        case True
        from src [OF True] obtain k' where k': "k' \<le> m" "res' ! k = res ! k'" by blast
        from k'(1) lm have "k' \<le> l" by simp
        from srt [OF this l region] show ?thesis by (simp add: k'(2) rest [OF lm])
      next
        case False
        then have "m < k" by simp
        from srt [OF kl l region] show ?thesis by (simp add: rest [OF lm] rest [OF \<open>m < k\<close>])
      qed
    qed
  qed
  then show ?case unfolding eq using len len' ms ms' by simp
qed

lemma bubble_sort_props:
  "length (bubble_sort d ps) = length ps"
  "mset (bubble_sort d ps) = mset ps"
  "sorted_wrt (may_precede d) (bubble_sort d ps)"
proof -
  have p: "length (bubble_sort d ps) = length ps \<and> mset (bubble_sort d ps) = mset ps
    \<and> (\<forall>k l. k \<le> l \<and> l < length ps \<and> length ps - length ps \<le> l \<longrightarrow>
          may_precede d (bubble_sort d ps ! k) (bubble_sort d ps ! l))"
    using outer_props [of "length ps" ps d] unfolding bubble_sort_def Let_def by simp
  then show "length (bubble_sort d ps) = length ps" "mset (bubble_sort d ps) = mset ps"
    by simp_all
  from p show "sorted_wrt (may_precede d) (bubble_sort d ps)"
    by (simp add: sorted_wrt_iff_nth_less)
qed

lemma may_precede_fun:
  "may_precede False = (\<lambda>a b. snd a \<le> snd b)"
  "may_precede True = (\<lambda>a b. snd b \<le> snd a)"
  by (simp_all add: fun_eq_iff may_precede_def)

lemma ascending_keys_sorted: "sorted (map snd (bubble_sort False ps))"
  using bubble_sort_props(3) [of False ps]
  by (simp add: sorted_wrt_map may_precede_fun)

lemma descending_keys_sorted: "sorted (rev (map snd (bubble_sort True ps)))"
  using bubble_sort_props(3) [of True ps]
  by (simp add: sorted_wrt_map sorted_wrt_rev may_precede_fun)

lemma bubble_sort_keys_reverse:
  "map snd (bubble_sort True ps) = rev (map snd (bubble_sort False ps))"
proof -
  have "mset (rev (map snd (bubble_sort True ps))) = mset (map snd (bubble_sort False ps))"
    by (simp add: bubble_sort_props(2))
  then have "rev (map snd (bubble_sort True ps)) = map snd (bubble_sort False ps)"
    using descending_keys_sorted ascending_keys_sorted
    by (metis properties_for_sort)
  then show ?thesis by (metis rev_rev_ident)
qed

lemma bubble_sort_reverse:
  assumes "distinct (map snd ps)"
  shows "bubble_sort True ps = rev (bubble_sort False ps)"
proof -
  have inj: "inj_on snd (set ps)" using assms by (simp add: distinct_map)
  have s: "set (bubble_sort True ps) = set ps" "set (rev (bubble_sort False ps)) = set ps"
    using bubble_sort_props(2) [of True ps] bubble_sort_props(2) [of False ps]
    by (metis mset_eq_setD, metis mset_eq_setD set_rev)
  have "map snd (bubble_sort True ps) = map snd (rev (bubble_sort False ps))"
    by (simp add: bubble_sort_keys_reverse rev_map)
  then show ?thesis
    using inj s inj_on_map_eq_map [of snd "bubble_sort True ps" "rev (bubble_sort False ps)"]
    by simp
qed

lemma upt_2: "[0 ..< 2] = [0, 1]" "[0 ..< 1] = [0]"
  by (simp_all add: upt_rec)

lemma sort_two_minted:
  "sort_certificates (registry two_minted) [1, 2] Co2eTons True = [1, 2]"
  "sort_certificates (registry two_minted) [1, 2] Co2eTons False = [1, 2]"
  "sort_certificates (registry two_minted) [1, 2] CertificateId True = [2, 1]"
  "sort_certificates (registry two_minted) [1, 2] CertificateId False = [1, 2]"
  by (simp_all add: two_minted_registry sort_certificates_def bubble_sort_def Let_def
        sort_value_def sample_record_def upt_2 bubble_step_def should_swap_def)

text \<open>
  Claim C8, as the code has it. For every list of certificate ids and every sort key, the
  sequence of sort keys of the descending result is the reverse of that of the ascending
  result; and whenever the certificates listed have pairwise distinct sort keys, the id
  sequence produced with \<open>descending = true\<close> is the reverse of the one produced with
  \<open>descending = false\<close>. For \<open>CertificateId\<close> that is so on every duplicate-free list.
\<close>

theorem sort_descending_is_reverse:
  "map snd (bubble_sort True (key_pairs env cert_ids sort_by))
     = rev (map snd (bubble_sort False (key_pairs env cert_ids sort_by)))
   \<and> (distinct (map snd (key_pairs env cert_ids sort_by)) \<longrightarrow>
        sort_certificates env cert_ids sort_by True
          = rev (sort_certificates env cert_ids sort_by False))
   \<and> (distinct cert_ids \<longrightarrow>
        sort_certificates env cert_ids CertificateId True
          = rev (sort_certificates env cert_ids CertificateId False))"
proof -
  have keys: "map snd (bubble_sort True (key_pairs env cert_ids sort_by))
     = rev (map snd (bubble_sort False (key_pairs env cert_ids sort_by)))"
    by (rule bubble_sort_keys_reverse)
  have ids: "sort_certificates env cert_ids sb True = rev (sort_certificates env cert_ids sb False)"
    if d: "distinct (map snd (key_pairs env cert_ids sb))" for sb
  proof (cases "length cert_ids \<le> 1")
    case True
    then have "rev cert_ids = cert_ids" by (cases cert_ids) simp_all
    with True show ?thesis by (simp add: sort_certificates_def)
  next
    case False
    then show ?thesis
      by (simp add: sort_certificates_def bubble_sort_reverse [OF d] rev_map)
  qed
  show ?thesis
    using keys ids [of sort_by] ids [of CertificateId] key_pairs_certificate_id [of cert_ids env]
    by blast
qed

theorem sort_descending_is_reverse_witness:
  "distinct (map snd (key_pairs (registry two_minted) [1, 2] CertificateId))
   \<and> distinct [1 :: u32, 2]
   \<and> sort_certificates (registry two_minted) [1, 2] CertificateId True = [2, 1]
   \<and> rev (sort_certificates (registry two_minted) [1, 2] CertificateId False) = [2, 1]"
proof -
  have d: "distinct (map snd (key_pairs (registry two_minted) [1, 2] CertificateId))"
    by (simp add: two_minted_registry sort_value_def)
  from sort_descending_is_reverse [of "registry two_minted" "[1, 2]" CertificateId] d
  have "sort_certificates (registry two_minted) [1, 2] CertificateId True
          = rev (sort_certificates (registry two_minted) [1, 2] CertificateId False)"
    by blast
  with d show ?thesis by (simp add: sort_two_minted(4))
qed

text \<open>
  On equal keys the claim fails: both comparisons of the bubble sort are strict, so two
  equal keys are never swapped, whatever the direction. With certificates 1 and 2 of 100
  tons each, both directions give \<open>[1, 2]\<close>.
\<close>

theorem sort_ties_counterexample:
  "sort_certificates (registry two_minted) [1, 2] Co2eTons True
     \<noteq> rev (sort_certificates (registry two_minted) [1, 2] Co2eTons False)"
  by (simp add: sort_two_minted)

end
